theory Spec2Isabelle
  imports Complex_Main
begin

section \<open>Python values\<close>

text \<open>
  The payloads of the graph engine are decoded JSON documents, typed \<open>Any\<close> in the
  source. They are modelled by the datatype below. A \<open>dict\<close> is an association list
  in insertion order (Python keeps insertion order, and \<open>.items()\<close> iterates in it);
  its keys are strings, as in JSON. Characters are code points below 256. JSON
  numbers with a fraction (Python floats) are not part of the model.
\<close>

datatype pyval =
    PNone
  | PBool bool
  | PInt int
  | PStr string
  | PList "pyval list"
  | PDict "(string \<times> pyval) list"

type_synonym pydict = "(string \<times> pyval) list"

text \<open>Truthiness, as \<open>if v:\<close> tests it.\<close>

fun truthy :: "pyval \<Rightarrow> bool" where
  "truthy PNone = False"
| "truthy (PBool b) = b"
| "truthy (PInt i) = (i \<noteq> 0)"
| "truthy (PStr s) = (s \<noteq> [])"
| "truthy (PList xs) = (xs \<noteq> [])"
| "truthy (PDict d) = (d \<noteq> [])"

text \<open>\<open>d.get(k, default)\<close> and \<open>d.get(k)\<close> (whose default is \<open>None\<close>).\<close>

definition dict_get :: "pydict \<Rightarrow> string \<Rightarrow> pyval \<Rightarrow> pyval" where
  "dict_get d k dflt = (case map_of d k of Some v \<Rightarrow> v | None \<Rightarrow> dflt)"

definition dict_get_none :: "pydict \<Rightarrow> string \<Rightarrow> pyval" where
  "dict_get_none d k = dict_get d k PNone"

subsection \<open>\<open>str()\<close> and \<open>repr()\<close>\<close>

definition digit_char :: "nat \<Rightarrow> char" where
  "digit_char n = char_of (48 + n)"

fun str_nat :: "nat \<Rightarrow> string" where
  "str_nat n = (if n < 10 then [digit_char n] else str_nat (n div 10) @ [digit_char (n mod 10)])"

declare str_nat.simps [simp del]

definition str_int :: "int \<Rightarrow> string" where
  "str_int i = (if i < 0 then CHR ''-'' # str_nat (nat (- i)) else str_nat (nat i))"

definition hex_char :: "nat \<Rightarrow> char" where
  "hex_char n = (if n < 10 then char_of (48 + n) else char_of (87 + n))"

text \<open>
  \<open>str.isprintable\<close> on one code point below 256: the ASCII range from the space to
  the tilde, and the Latin-1 range above the no-break space without the soft hyphen.
\<close>

definition printable :: "char \<Rightarrow> bool" where
  "printable c =
     (let n = (of_char c :: nat)
      in (32 \<le> n \<and> n \<le> 126) \<or> (161 \<le> n \<and> n \<noteq> 173))"

definition repr_char :: "char \<Rightarrow> char \<Rightarrow> string" where
  "repr_char q c =
     (if c = q \<or> c = CHR 0x5C then [CHR 0x5C, c]
      else if c = CHR 0x09 then [CHR 0x5C, CHR ''t'']
      else if c = CHR 0x0A then [CHR 0x5C, CHR ''n'']
      else if c = CHR 0x0D then [CHR 0x5C, CHR ''r'']
      else if printable c then [c]
      else [CHR 0x5C, CHR ''x'', hex_char (of_char c div 16), hex_char (of_char c mod 16)])"

text \<open>
  \<open>repr\<close> of a string: single quotes, unless the string has a single quote and no
  double quote.
\<close>

definition repr_str :: "string \<Rightarrow> string" where
  "repr_str s =
     (let q = (if CHR 0x27 \<in> set s \<and> CHR 0x22 \<notin> set s then CHR 0x22 else CHR 0x27)
      in q # concat (map (repr_char q) s) @ [q])"

fun join_str :: "string \<Rightarrow> string list \<Rightarrow> string" where
  "join_str sep [] = []"
| "join_str sep [x] = x"
| "join_str sep (x # y # ys) = x @ sep @ join_str sep (y # ys)"

fun py_repr :: "pyval \<Rightarrow> string"
  and py_repr_list :: "pyval list \<Rightarrow> string list"
  and py_repr_items :: "(string \<times> pyval) list \<Rightarrow> string list" where
  "py_repr PNone = ''None''"
| "py_repr (PBool b) = (if b then ''True'' else ''False'')"
| "py_repr (PInt i) = str_int i"
| "py_repr (PStr s) = repr_str s"
| "py_repr (PList xs) = ''['' @ join_str '', '' (py_repr_list xs) @ '']''"
| "py_repr (PDict d) = ''{'' @ join_str '', '' (py_repr_items d) @ ''}''"
| "py_repr_list [] = []"
| "py_repr_list (x # xs) = py_repr x # py_repr_list xs"
| "py_repr_items [] = []"
| "py_repr_items ((k, v) # kvs) = (repr_str k @ '': '' @ py_repr v) # py_repr_items kvs"

definition py_str :: "pyval \<Rightarrow> string" where
  "py_str v = (case v of PStr s \<Rightarrow> s | _ \<Rightarrow> py_repr v)"

section \<open>Credential model (app/models/credential.py)\<close>

text \<open>
  The dataclass \<open>VerifiableCredential\<close>. The fields carry the types of their
  annotations (\<open>from_dict\<close> copies the entries of the document into them without a
  check, and a document with an entry of another type is outside the model);
  \<open>issuer\<close> is kept as a Python value, since \<open>get_issuer_id\<close> has a branch for an
  issuer that is neither a string nor a dict. The fields are prefixed, several of their
  names being reserved or shared with the graph nodes.
\<close>

record VerifiableCredential =
  vc_context :: "string list"
  vc_type :: "string list"
  vc_id :: "string option"
  vc_issuer :: pyval
  vc_issuance_date :: "string option"
  vc_expiration_date :: "string option"
  vc_credential_subject :: pydict
  vc_proof :: "pydict option"

definition get_issuer_id :: "VerifiableCredential \<Rightarrow> pyval" where
  "get_issuer_id vc =
     (case vc_issuer vc of
        PStr s \<Rightarrow> PStr s
      | PDict d \<Rightarrow> dict_get d ''id'' (PStr (py_str (PDict d)))
      | other \<Rightarrow> PStr (py_str other))"

definition get_issuer_name :: "VerifiableCredential \<Rightarrow> pyval" where
  "get_issuer_name vc =
     (case vc_issuer vc of
        PDict d \<Rightarrow> dict_get_none d ''name''
      | _ \<Rightarrow> PNone)"

definition get_credential_type :: "VerifiableCredential \<Rightarrow> string" where
  "get_credential_type vc =
     (let specific_types = filter (\<lambda>t. t \<noteq> ''VerifiableCredential'') (vc_type vc)
      in case specific_types of t # _ \<Rightarrow> t | [] \<Rightarrow> ''VerifiableCredential'')"

section \<open>Claim extraction (app/graph/decomposer.py, \<open>_extract_claims\<close>)\<close>

text \<open>
  The loop over \<open>credential_subject.items()\<close> is the recursion over the association
  list; \<open>claims.extend\<close> and \<open>claims.append\<close> are the concatenation. The f-string
  \<open>f"{prefix}.{key}" if prefix else key\<close> tests the truthiness of \<open>prefix\<close>: the empty
  prefix is falsy.
\<close>

fun extract_claims :: "pydict \<Rightarrow> string \<Rightarrow> (string \<times> pyval) list" where
  "extract_claims [] prefix = []"
| "extract_claims ((key, val) # items) prefix =
     (let full_key = (if prefix \<noteq> [] then prefix @ ''.'' @ key else key)
      in (case val of
            PDict d \<Rightarrow> extract_claims d full_key
          | PList xs \<Rightarrow> [(full_key, PStr (py_str val))]
          | _ \<Rightarrow> [(full_key, val)])
         @ extract_claims items prefix)"

subsection \<open>The extractor as the specification words it\<close>

text \<open>
  The specification's contract, written independently of the source: the leaves of the
  nested mapping, depth first and in insertion order, each with the list of keys from
  the root to it; a list value is a leaf whose value is the string of the whole list.
  The path of a leaf is the keys joined by a dot.
\<close>

fun leaves :: "pydict \<Rightarrow> (string list \<times> pyval) list" where
  "leaves [] = []"
| "leaves ((key, val) # items) =
     (case val of
        PDict d \<Rightarrow> map (\<lambda>(ks, v). (key # ks, v)) (leaves d)
      | PList xs \<Rightarrow> [([key], PStr (py_str val))]
      | _ \<Rightarrow> [([key], val)])
     @ leaves items"

definition spec_extract_claims :: "pydict \<Rightarrow> (string \<times> pyval) list" where
  "spec_extract_claims d = map (\<lambda>(ks, v). (join_str ''.'' ks, v)) (leaves d)"

section \<open>Event normalization (app/consumer/rabbitmq_consumer.py, \<open>_process_oidc\<close>)\<close>

text \<open>\<open>d[k] = v\<close>: the value of an existing key is replaced in place, a new key goes last.\<close>

fun dict_set :: "(string \<times> 'a) list \<Rightarrow> string \<Rightarrow> 'a \<Rightarrow> (string \<times> 'a) list" where
  "dict_set [] k v = [(k, v)]"
| "dict_set ((k', v') # d) k v = (if k' = k then (k, v) # d else (k', v') # dict_set d k v)"


section \<open>Graph nodes (app/models/node.py)\<close>

text \<open>
  An instant is an abstract count; \<open>isoformat\<close> renderings of an instant are kept as
  the instant itself. A property value is a Python value, a float or such a rendering.
\<close>

datatype datetime = DateTime int

datatype NodeType = USER | FRAGMENT | CREDENTIAL | CLAIM | CONTEXT

datatype propval = PropVal pyval | PropFloat real | PropIso datetime

record GraphNode =
  node_id :: string
  node_type :: NodeType
  properties :: "(string \<times> propval) list"
  created_at :: datetime
  expires_at :: "datetime option"

record ClaimNode = GraphNode +
  attribute :: string
  claim_value :: pyval
  confidence :: real

record CredentialNode = GraphNode +
  issuer :: pyval
  credential_type :: string
  issuance_date :: "datetime option"

record FragmentNode = GraphNode +
  source :: string
  source_id :: string

text \<open>\<open>d.update(other)\<close>: the entries of \<open>other\<close> are set in their order.\<close>

definition dict_update :: "(string \<times> 'a) list \<Rightarrow> (string \<times> 'a) list \<Rightarrow> (string \<times> 'a) list" where
  "dict_update d other = fold (\<lambda>(k, v) acc. dict_set acc k v) other d"

text \<open>
  The constructors: the generated \<open>__init__\<close> with the fields the callers pass, then
  \<open>__post_init__\<close>. The defaults \<open>node_id\<close> (a fresh UUID) and \<open>created_at\<close> (the time
  of the call) are drawn by the caller, see \<open>new_claim_node\<close> below.
\<close>

definition ClaimNode_init :: "string \<Rightarrow> datetime \<Rightarrow> string \<Rightarrow> pyval \<Rightarrow> real \<Rightarrow> ClaimNode" where
  "ClaimNode_init nid created attr v conf =
     \<lparr>node_id = nid, node_type = CLAIM,
      properties = dict_update []
        [(''attribute'', PropVal (PStr attr)),
         (''value'', PropVal (if v \<noteq> PNone then PStr (py_str v) else PNone)),
         (''confidence'', PropFloat conf)],
      created_at = created, expires_at = None,
      attribute = attr, claim_value = v, confidence = conf\<rparr>"

definition CredentialNode_init ::
  "string \<Rightarrow> datetime \<Rightarrow> pyval \<Rightarrow> string \<Rightarrow> datetime option \<Rightarrow> CredentialNode" where
  "CredentialNode_init nid created iss ctype idate =
     \<lparr>node_id = nid, node_type = CREDENTIAL,
      properties = dict_update []
        [(''issuer'', PropVal iss),
         (''credential_type'', PropVal (PStr ctype)),
         (''issuance_date'', (case idate of Some d \<Rightarrow> PropIso d | None \<Rightarrow> PropVal PNone))],
      created_at = created, expires_at = None,
      issuer = iss, credential_type = ctype, issuance_date = idate\<rparr>"

section \<open>The graph store (app/graph/neo4j_client.py)\<close>

text \<open>
  The state the engine works on: the nodes and relationships of the graph database,
  and the two sources of fresh values, the clock and the UUID generator. A node of the
  database has an internal identity \<open>nid\<close>, distinct from its \<open>node_id\<close> property; a
  relationship joins two internal identities. Each reading of the clock advances it,
  and each UUID drawn is new.
\<close>

record user_row =
  u_nid :: nat
  u_node_id :: string
  u_created_at :: datetime

record credential_row =
  cr_nid :: nat
  cr_node_id :: string
  cr_issuer :: pyval
  cr_credential_type :: string
  cr_issuance_date :: "datetime option"
  cr_created_at :: datetime

record claim_row =
  cl_nid :: nat
  cl_node_id :: string
  cl_attribute :: string
  cl_value :: "string option"
  cl_confidence :: real
  cl_created_at :: datetime

record supports_row =
  s_edge_id :: string
  s_created_at :: datetime
  s_source :: nat
  s_target :: nat

record contradicts_row =
  x_edge_id :: string
  x_confidence :: real
  x_created_at :: datetime
  x_source :: nat
  x_target :: nat

record world =
  user_nodes :: "user_row list"
  credential_nodes :: "credential_row list"
  claim_nodes_db :: "claim_row list"
  belongs_to_edges :: "(nat \<times> nat) list"
  supports_edges :: "supports_row list"
  contradicts_edges :: "contradicts_row list"
  next_nid :: nat
  next_uuid :: nat
  now :: int

text \<open>
  An operation runs on the world and returns a value or raises; the writes made before
  an exception stay (no call of the client is wrapped in a transaction of the caller).
\<close>

datatype error = TypeError

type_synonym 'a action = "world \<Rightarrow> (error + 'a) \<times> world"

definition ok :: "'a \<Rightarrow> 'a action" where
  "ok x w = (Inr x, w)"

definition raise :: "error \<Rightarrow> 'a action" where
  "raise e w = (Inl e, w)"

definition seq :: "'a action \<Rightarrow> ('a \<Rightarrow> 'b action) \<Rightarrow> 'b action" where
  "seq m f w = (case m w of (Inl e, w') \<Rightarrow> (Inl e, w') | (Inr x, w') \<Rightarrow> f x w')"

definition uuid_str :: "nat \<Rightarrow> string" where
  "uuid_str n = ''uuid-'' @ str_nat n"

definition uuid4 :: "string action" where
  "uuid4 w = (Inr (uuid_str (next_uuid w)), w\<lparr>next_uuid := next_uuid w + 1\<rparr>)"

definition utcnow :: "datetime action" where
  "utcnow w = (Inr (DateTime (now w)), w\<lparr>now := now w + 1\<rparr>)"

text \<open>
  \<open>record = await result.single()\<close> followed by \<open>record[...]\<close>: the first record of the
  result; with no record \<open>single()\<close> returns \<open>None\<close>, and subscripting it raises.
\<close>

definition single :: "'a list \<Rightarrow> 'a action" where
  "single rows = (case rows of [] \<Rightarrow> raise TypeError | r # _ \<Rightarrow> ok r)"

subsection \<open>Node operations\<close>

text \<open>
  \<open>MERGE (u:User {node_id: $user_id}) ON CREATE SET u.created_at = datetime()\<close>: the
  User nodes with this \<open>node_id\<close> are matched, and one is created when there is none.
\<close>

definition create_user_node :: "string \<Rightarrow> string action" where
  "create_user_node user_id w =
     (let matched = filter (\<lambda>u. u_node_id u = user_id) (user_nodes w)
      in if matched \<noteq> [] then single (map u_node_id matched) w
         else single [user_id]
                (w\<lparr>user_nodes := user_nodes w @
                      [\<lparr>u_nid = next_nid w, u_node_id = user_id, u_created_at = DateTime (now w)\<rparr>],
                    next_nid := next_nid w + 1,
                    now := now w + 1\<rparr>))"

text \<open>
  \<open>MATCH (u:User {node_id: $user_id}) CREATE (c:Credential {...}) CREATE (c)-[:BELONGS_TO]->(u)\<close>:
  one Credential node and one relationship for every User node matched.
\<close>

definition add_credential :: "CredentialNode \<Rightarrow> user_row \<Rightarrow> world \<Rightarrow> world" where
  "add_credential credential u w =
     w\<lparr>credential_nodes := credential_nodes w @
          [\<lparr>cr_nid = next_nid w, cr_node_id = node_id credential,
            cr_issuer = issuer credential,
            cr_credential_type = credential_type credential,
            cr_issuance_date = issuance_date credential,
            cr_created_at = created_at credential\<rparr>],
        belongs_to_edges := belongs_to_edges w @ [(next_nid w, u_nid u)],
        next_nid := next_nid w + 1\<rparr>"

definition create_credential_node :: "CredentialNode \<Rightarrow> string \<Rightarrow> string action" where
  "create_credential_node credential user_id w =
     (let matched = filter (\<lambda>u. u_node_id u = user_id) (user_nodes w)
      in single (map (\<lambda>u. node_id credential) matched)
           (fold (add_credential credential) matched w))"

text \<open>\<open>CREATE (c:Claim {...})\<close>; the value is stored as its string, \<open>None\<close> as null.\<close>

definition create_claim_node :: "ClaimNode \<Rightarrow> string action" where
  "create_claim_node claim w =
     single [node_id claim]
       (w\<lparr>claim_nodes_db := claim_nodes_db w @
             [\<lparr>cl_nid = next_nid w, cl_node_id = node_id claim,
               cl_attribute = attribute claim,
               cl_value = (if claim_value claim \<noteq> PNone
                           then Some (py_str (claim_value claim)) else None),
               cl_confidence = confidence claim,
               cl_created_at = created_at claim\<rparr>],
           next_nid := next_nid w + 1\<rparr>)"

subsection \<open>Edge operations\<close>

text \<open>
  Two \<open>MATCH\<close> clauses give every pair of a matched Credential and a matched Claim;
  \<open>CREATE\<close> makes one relationship per pair, each with its own \<open>randomUUID()\<close>. The
  statement reads \<open>datetime()\<close> once.
\<close>

definition add_supports ::
  "datetime \<Rightarrow> credential_row \<times> claim_row \<Rightarrow> string list \<times> world \<Rightarrow> string list \<times> world" where
  "add_supports t pair acc =
     (case acc of (ids, w) \<Rightarrow>
        (ids @ [uuid_str (next_uuid w)],
         w\<lparr>supports_edges := supports_edges w @
              [\<lparr>s_edge_id = uuid_str (next_uuid w), s_created_at = t,
                s_source = cr_nid (fst pair), s_target = cl_nid (snd pair)\<rparr>],
            next_uuid := next_uuid w + 1\<rparr>))"

definition create_supports_edge :: "string \<Rightarrow> string \<Rightarrow> string action" where
  "create_supports_edge credential_id claim_id w =
     (let pairs = List.product
            (filter (\<lambda>cr. cr_node_id cr = credential_id) (credential_nodes w))
            (filter (\<lambda>cl. cl_node_id cl = claim_id) (claim_nodes_db w));
          (ids, w') = fold (add_supports (DateTime (now w))) pairs ([], w\<lparr>now := now w + 1\<rparr>)
      in single ids w')"

definition add_contradicts ::
  "datetime \<Rightarrow> real \<Rightarrow> claim_row \<times> claim_row \<Rightarrow> string list \<times> world \<Rightarrow> string list \<times> world" where
  "add_contradicts t conf pair acc =
     (case acc of (ids, w) \<Rightarrow>
        (ids @ [uuid_str (next_uuid w)],
         w\<lparr>contradicts_edges := contradicts_edges w @
              [\<lparr>x_edge_id = uuid_str (next_uuid w), x_confidence = conf, x_created_at = t,
                x_source = cl_nid (fst pair), x_target = cl_nid (snd pair)\<rparr>],
            next_uuid := next_uuid w + 1\<rparr>))"

definition create_contradicts_edge :: "string \<Rightarrow> string \<Rightarrow> real \<Rightarrow> string action" where
  "create_contradicts_edge claim_a_id claim_b_id conf w =
     (let pairs = List.product
            (filter (\<lambda>cl. cl_node_id cl = claim_a_id) (claim_nodes_db w))
            (filter (\<lambda>cl. cl_node_id cl = claim_b_id) (claim_nodes_db w));
          (ids, w') = fold (add_contradicts (DateTime (now w)) conf) pairs ([], w\<lparr>now := now w + 1\<rparr>)
      in single ids w')"

subsection \<open>Query operations\<close>

text \<open>
  The records of \<open>find_existing_claims\<close>: every record has the three keys of the
  \<open>RETURN\<close> clause; a Claim stored without a value reads as \<open>None\<close>.
\<close>

record claim_record =
  rec_node_id :: string
  rec_attribute :: string
  rec_value :: "string option"

text \<open>
  One record for every path
  \<open>(c:Claim {attribute})<-[:SUPPORTS]-(cr:Credential)-[:BELONGS_TO]->(u:User {node_id})\<close>.
  The database fixes no order of the records; the model lists them by user, credential
  and relationship.
\<close>

definition find_existing_claims :: "world \<Rightarrow> string \<Rightarrow> string \<Rightarrow> claim_record list" where
  "find_existing_claims w user_id attr =
     [\<lparr>rec_node_id = cl_node_id cl, rec_attribute = cl_attribute cl, rec_value = cl_value cl\<rparr>.
        u \<leftarrow> user_nodes w, u_node_id u = user_id,
        cr \<leftarrow> credential_nodes w,
        b \<leftarrow> belongs_to_edges w, b = (cr_nid cr, u_nid u),
        s \<leftarrow> supports_edges w, s_source s = cr_nid cr,
        cl \<leftarrow> claim_nodes_db w, cl_nid cl = s_target s \<and> cl_attribute cl = attr]"

section \<open>Credential decomposer (app/graph/decomposer.py)\<close>

text \<open>
  \<open>datetime.fromisoformat\<close> belongs to the Python library: it is a parameter of the
  model, \<open>None\<close> standing for the \<open>ValueError\<close> of a string it does not accept.
\<close>

type_synonym iso_parser = "string \<Rightarrow> datetime option"

text \<open>\<open>s.replace(old, new)\<close> for a one-character \<open>old\<close>.\<close>

definition str_replace :: "char \<Rightarrow> string \<Rightarrow> string \<Rightarrow> string" where
  "str_replace old new s = concat (map (\<lambda>c. if c = old then new else [c]) s)"

text \<open>
  The issuance date: \<open>if vc.issuance_date:\<close> is false for \<open>None\<close> and for the empty
  string; the \<open>ValueError\<close> of the parser is caught and leaves \<open>None\<close>.
\<close>

definition parse_issuance_date :: "iso_parser \<Rightarrow> VerifiableCredential \<Rightarrow> datetime option" where
  "parse_issuance_date fromisoformat vc =
     (case vc_issuance_date vc of
        None \<Rightarrow> None
      | Some s \<Rightarrow>
          if s \<noteq> [] then fromisoformat (str_replace CHR ''Z'' ''+00:00'' s) else None)"

text \<open>\<open>CredentialNode(issuer=..., credential_type=..., issuance_date=...)\<close> and the two
  properties set after it.\<close>

definition new_credential_node ::
  "VerifiableCredential \<Rightarrow> string \<Rightarrow> datetime option \<Rightarrow> CredentialNode action" where
  "new_credential_node vc event_id idate =
     seq uuid4 (\<lambda>nid. seq utcnow (\<lambda>t.
       ok (let n = CredentialNode_init nid t (get_issuer_id vc) (get_credential_type vc) idate;
               n1 = n\<lparr>properties := dict_set (properties n) ''event_id'' (PropVal (PStr event_id))\<rparr>
           in n1\<lparr>properties := dict_set (properties n1) ''issuer_name'' (PropVal (get_issuer_name vc))\<rparr>)))"

text \<open>\<open>ClaimNode(attribute=attribute, value=value, confidence=1.0)\<close>.\<close>

definition new_claim_node :: "string \<Rightarrow> pyval \<Rightarrow> ClaimNode action" where
  "new_claim_node attr v =
     seq uuid4 (\<lambda>nid. seq utcnow (\<lambda>t. ok (ClaimNode_init nid t attr v 1)))"

text \<open>The body of the loop over the extracted claims, for a pair that is not skipped.\<close>

definition decompose_claim :: "string \<Rightarrow> string \<Rightarrow> pyval \<Rightarrow> ClaimNode action" where
  "decompose_claim credential_id attr v =
     seq (new_claim_node attr v) (\<lambda>claim_node.
     seq (create_claim_node claim_node) (\<lambda>_.
     seq (create_supports_edge credential_id (node_id claim_node)) (\<lambda>_.
     ok claim_node)))"

fun decompose_claims ::
  "string \<Rightarrow> (string \<times> pyval) list \<Rightarrow> ClaimNode list \<Rightarrow> nat \<Rightarrow> (ClaimNode list \<times> nat) action" where
  "decompose_claims credential_id [] claim_nodes edges_created w =
     (Inr (claim_nodes, edges_created), w)"
| "decompose_claims credential_id ((attr, v) # claims) claim_nodes edges_created w =
     (if attr = ''id'' then decompose_claims credential_id claims claim_nodes edges_created w
      else case decompose_claim credential_id attr v w of
             (Inl e, w') \<Rightarrow> (Inl e, w')
           | (Inr claim_node, w') \<Rightarrow>
               decompose_claims credential_id claims (claim_nodes @ [claim_node])
                 (edges_created + 1) w')"

record DecompositionResult =
  credential_node :: CredentialNode
  claim_nodes :: "ClaimNode list"
  fragment_node :: "FragmentNode option"
  edges_created :: nat
  conflicts_detected :: nat

definition decompose ::
  "iso_parser \<Rightarrow> VerifiableCredential \<Rightarrow> string \<Rightarrow> string \<Rightarrow> DecompositionResult action" where
  "decompose fromisoformat vc user_id event_id =
     seq (create_user_node user_id) (\<lambda>_.
     seq (new_credential_node vc event_id (parse_issuance_date fromisoformat vc)) (\<lambda>credential_node.
     seq (create_credential_node credential_node user_id) (\<lambda>_.
     seq (decompose_claims (node_id credential_node)
            (extract_claims (vc_credential_subject vc) []) [] 0) (\<lambda>(claim_nodes, edges_created).
     ok \<lparr>credential_node = credential_node, claim_nodes = claim_nodes,
         fragment_node = None, edges_created = edges_created,
         conflicts_detected = 0\<rparr>))))"

section \<open>Conflict detector (app/graph/conflict_detector.py)\<close>

record Conflict =
  conflict_id :: string
  conflict_attribute :: string
  claim_a :: ClaimNode
  claim_b :: ClaimNode
  detected_at :: datetime

text \<open>
  \<open>str(existing_claim.get("value", ""))\<close>: the record always has the key, so the
  default is not used, and a null value reads \<open>None\<close>, whose string is \<open>None\<close>.
\<close>

definition existing_value_of :: "claim_record \<Rightarrow> string" where
  "existing_value_of existing_claim =
     py_str (case rec_value existing_claim of Some s \<Rightarrow> PStr s | None \<Rightarrow> PNone)"

text \<open>\<open>str(new_claim.value) if new_claim.value else ""\<close>: the test is the truthiness
  of the value.\<close>

definition new_value_of :: "ClaimNode \<Rightarrow> string" where
  "new_value_of new_claim =
     (if truthy (claim_value new_claim) then py_str (claim_value new_claim) else [])"

text \<open>The branch taken when the values differ: the edge, then the \<open>Conflict\<close> object,
  whose \<open>claim_b\<close> is a \<open>ClaimNode\<close> built from the record.\<close>

definition record_conflict :: "ClaimNode \<Rightarrow> claim_record \<Rightarrow> Conflict action" where
  "record_conflict new_claim existing_claim =
     seq (create_contradicts_edge (node_id new_claim) (rec_node_id existing_claim) 1) (\<lambda>edge_id.
     seq utcnow (\<lambda>t_b.
     seq utcnow (\<lambda>t.
     ok \<lparr>conflict_id = edge_id,
         conflict_attribute = attribute new_claim,
         claim_a = new_claim,
         claim_b = ClaimNode_init (rec_node_id existing_claim) t_b
                     (rec_attribute existing_claim)
                     (case rec_value existing_claim of Some s \<Rightarrow> PStr s | None \<Rightarrow> PNone) 1,
         detected_at = t\<rparr>)))"

fun check_existing ::
  "ClaimNode \<Rightarrow> claim_record list \<Rightarrow> Conflict list \<Rightarrow> Conflict list action" where
  "check_existing new_claim [] conflicts w = (Inr conflicts, w)"
| "check_existing new_claim (existing_claim # existing) conflicts w =
     (if rec_node_id existing_claim = node_id new_claim
      then check_existing new_claim existing conflicts w
      else if existing_value_of existing_claim \<noteq> new_value_of new_claim
      then case record_conflict new_claim existing_claim w of
             (Inl e, w') \<Rightarrow> (Inl e, w')
           | (Inr conflict, w') \<Rightarrow> check_existing new_claim existing (conflicts @ [conflict]) w'
      else check_existing new_claim existing conflicts w)"

fun detect_loop :: "string \<Rightarrow> ClaimNode list \<Rightarrow> Conflict list \<Rightarrow> Conflict list action" where
  "detect_loop user_id [] conflicts w = (Inr conflicts, w)"
| "detect_loop user_id (new_claim # new_claims) conflicts w =
     (case check_existing new_claim
             (find_existing_claims w user_id (attribute new_claim)) conflicts w of
        (Inl e, w') \<Rightarrow> (Inl e, w')
      | (Inr conflicts', w') \<Rightarrow> detect_loop user_id new_claims conflicts' w')"

definition detect_conflicts :: "string \<Rightarrow> ClaimNode list \<Rightarrow> Conflict list action" where
  "detect_conflicts user_id new_claims = detect_loop user_id new_claims []"

text \<open>\<open>resolve_conflict\<close>: the body logs and returns \<open>True\<close>.\<close>

definition resolve_conflict :: "string \<Rightarrow> string \<Rightarrow> bool action" where
  "resolve_conflict cid preferred_claim_id = ok True"

section \<open>Event processing (app/consumer/rabbitmq_consumer.py, \<open>_process_vc\<close>)\<close>

text \<open>
  \<open>_process_vc\<close> from the parsed credential on: the decomposition, then the conflict
  detection on the claim nodes it created. The result is returned as the method logs it.
\<close>

definition process_vc ::
  "iso_parser \<Rightarrow> VerifiableCredential \<Rightarrow> string \<Rightarrow> string \<Rightarrow> DecompositionResult action" where
  "process_vc fromisoformat vc user_id event_id =
     seq (decompose fromisoformat vc user_id event_id) (\<lambda>result.
     seq (detect_conflicts user_id (claim_nodes result)) (\<lambda>conflicts.
     ok (result\<lparr>conflicts_detected := length conflicts\<rparr>)))"

section \<open>Sample values\<close>

text \<open>A credential with the defaults of the dataclass, and an empty graph.\<close>

definition default_vc :: VerifiableCredential where
  "default_vc =
     \<lparr>vc_context = [], vc_type = [], vc_id = None, vc_issuer = PStr [],
      vc_issuance_date = None, vc_expiration_date = None,
      vc_credential_subject = [], vc_proof = None\<rparr>"

definition empty_world :: world where
  "empty_world =
     \<lparr>user_nodes = [], credential_nodes = [], claim_nodes_db = [],
      belongs_to_edges = [], supports_edges = [], contradicts_edges = [],
      next_nid = 0, next_uuid = 0, now = 0\<rparr>"

definition sample_subject :: pydict where
  "sample_subject =
     [(''id'', PStr ''s1''), (''name'', PStr ''John Doe''), (''email'', PStr ''j@x.com''),
      (''degree'', PDict [(''type'', PStr ''BS''), (''name'', PStr ''CS'')])]"

definition alice_subject :: pydict where
  "alice_subject =
     [(''name'', PStr ''Alice''),
      (''address'', PDict [(''city'', PStr ''NY''), (''country'', PStr ''USA'')])]"

text \<open>A subject whose only top-level key is the empty string, over a nested mapping.\<close>

definition empty_key_subject :: pydict where
  "empty_key_subject = [([], PDict [(''a'', PStr ''x''), (''id'', PStr ''y'')])]"


text \<open>A credential whose issuance date is not in ISO 8601 format.\<close>

definition bad_date_vc :: VerifiableCredential where
  "bad_date_vc = default_vc\<lparr>vc_credential_subject := sample_subject,
                            vc_issuance_date := Some ''15 January 2024''\<rparr>"

text \<open>A parser that accepts one date, for running \<open>decompose\<close> on concrete input.\<close>

definition sample_parser :: iso_parser where
  "sample_parser s =
     (if s = ''2024-01-15T00:00:00+00:00'' then Some (DateTime 1705276800) else None)"

text \<open>
  A graph with one user, one credential of the user and one claim \<open>name\<close> of the
  credential, stored under the identifier \<open>same-id\<close> with the value \<open>Different\<close>.
\<close>

definition self_match_world :: world where
  "self_match_world =
     \<lparr>user_nodes = [\<lparr>u_nid = 0, u_node_id = ''user-123'', u_created_at = DateTime 0\<rparr>],
      credential_nodes =
        [\<lparr>cr_nid = 1, cr_node_id = ''cred-1'', cr_issuer = PStr ''did:x'',
          cr_credential_type = ''VerifiableCredential'', cr_issuance_date = None,
          cr_created_at = DateTime 1\<rparr>],
      claim_nodes_db =
        [\<lparr>cl_nid = 2, cl_node_id = ''same-id'', cl_attribute = ''name'',
          cl_value = Some ''Different'', cl_confidence = 1, cl_created_at = DateTime 2\<rparr>],
      belongs_to_edges = [(1, 0)],
      supports_edges =
        [\<lparr>s_edge_id = ''edge-1'', s_created_at = DateTime 3, s_source = 1, s_target = 2\<rparr>],
      contradicts_edges = [],
      next_nid = 3, next_uuid = 0, now = 4\<rparr>"

text \<open>
  A graph in which the user has two credentials: the first supports the claim \<open>name\<close>
  stored under \<open>existing-1\<close> with the value \<open>Jane\<close>, the second the claim \<open>name\<close>
  stored under \<open>new-1\<close> with the value \<open>John\<close>; and the claim node of the latter.
\<close>

definition jane_world :: world where
  "jane_world =
     \<lparr>user_nodes = [\<lparr>u_nid = 0, u_node_id = ''user-123'', u_created_at = DateTime 0\<rparr>],
      credential_nodes =
        [\<lparr>cr_nid = 1, cr_node_id = ''cred-1'', cr_issuer = PStr ''did:x'',
          cr_credential_type = ''VerifiableCredential'', cr_issuance_date = None,
          cr_created_at = DateTime 1\<rparr>,
         \<lparr>cr_nid = 3, cr_node_id = ''cred-2'', cr_issuer = PStr ''did:y'',
          cr_credential_type = ''VerifiableCredential'', cr_issuance_date = None,
          cr_created_at = DateTime 4\<rparr>],
      claim_nodes_db =
        [\<lparr>cl_nid = 2, cl_node_id = ''existing-1'', cl_attribute = ''name'',
          cl_value = Some ''Jane'', cl_confidence = 1, cl_created_at = DateTime 2\<rparr>,
         \<lparr>cl_nid = 4, cl_node_id = ''new-1'', cl_attribute = ''name'',
          cl_value = Some ''John'', cl_confidence = 1, cl_created_at = DateTime 5\<rparr>],
      belongs_to_edges = [(1, 0), (3, 0)],
      supports_edges =
        [\<lparr>s_edge_id = ''edge-1'', s_created_at = DateTime 3, s_source = 1, s_target = 2\<rparr>,
         \<lparr>s_edge_id = ''edge-2'', s_created_at = DateTime 6, s_source = 3, s_target = 4\<rparr>],
      contradicts_edges = [],
      next_nid = 5, next_uuid = 0, now = 7\<rparr>"

definition john_claim :: ClaimNode where
  "john_claim = ClaimNode_init ''new-1'' (DateTime 5) ''name'' (PStr ''John'') 1"

text \<open>
  A credential whose subject has the attribute \<open>age\<close> with the number zero, and its
  ingestion twice for the same user on the empty graph: the first event is processed,
  then the second; \<open>zero_second_decomposed\<close> is the state between the decomposition
  and the conflict detection of the second event.
\<close>

definition zero_vc :: VerifiableCredential where
  "zero_vc = default_vc\<lparr>vc_type := [''VerifiableCredential''], vc_issuer := PStr ''did:y'',
       vc_credential_subject := [(''id'', PStr ''s1''), (''age'', PInt 0)]\<rparr>"

definition zero_first :: "(error + DecompositionResult) \<times> world" where
  "zero_first = process_vc sample_parser zero_vc ''u1'' ''e1'' empty_world"

definition zero_second :: "(error + DecompositionResult) \<times> world" where
  "zero_second = process_vc sample_parser zero_vc ''u1'' ''e2'' (snd zero_first)"

definition zero_second_decomposed :: "(error + DecompositionResult) \<times> world" where
  "zero_second_decomposed = decompose sample_parser zero_vc ''u1'' ''e2'' (snd zero_first)"

section \<open>Notions used in the statements\<close>

text \<open>The path built along a list of keys, one step of \<open>_extract_claims\<close> at a time.\<close>

definition step_key :: "string \<Rightarrow> string \<Rightarrow> string" where
  "step_key prefix key = (if prefix \<noteq> [] then prefix @ ''.'' @ key else key)"

text \<open>A value that is a nested mapping.\<close>

definition is_mapping :: "pyval \<Rightarrow> bool" where
  "is_mapping v = (case v of PDict d \<Rightarrow> True | _ \<Rightarrow> False)"





text \<open>The claim nodes, the conflict count and the conflicts of an outcome; none for an error.\<close>

definition result_claims :: "error + DecompositionResult \<Rightarrow> ClaimNode list" where
  "result_claims res = (case res of Inr r \<Rightarrow> claim_nodes r | Inl e \<Rightarrow> [])"

definition detected :: "error + DecompositionResult \<Rightarrow> nat option" where
  "detected res = (case res of Inr r \<Rightarrow> Some (conflicts_detected r) | Inl e \<Rightarrow> None)"

definition conflicts_of :: "error + Conflict list \<Rightarrow> Conflict list" where
  "conflicts_of res = (case res of Inr cs \<Rightarrow> cs | Inl e \<Rightarrow> [])"

text \<open>
  A CONTRADICTS relationship that joins two Claim nodes of the list with different
  \<open>node_id\<close>.
\<close>

definition joins_distinct :: "claim_row list \<Rightarrow> contradicts_row \<Rightarrow> bool" where
  "joins_distinct cls x =
     (\<exists>a \<in> set cls. \<exists>b \<in> set cls.
        x_source x = cl_nid a \<and> x_target x = cl_nid b \<and> cl_node_id a \<noteq> cl_node_id b)"

text \<open>The part of the store that \<open>find_existing_claims\<close> reads.\<close>

definition read_view ::
  "world \<Rightarrow> user_row list \<times> credential_row list \<times> claim_row list \<times> (nat \<times> nat) list \<times> supports_row list" where
  "read_view w =
     (user_nodes w, credential_nodes w, claim_nodes_db w, belongs_to_edges w, supports_edges w)"

text \<open>
  A store in which the \<open>node_id\<close>s identify the nodes they are used to match: no two
  User nodes share one, and no Credential or Claim node carries a UUID that the
  generator has yet to draw.
\<close>

definition fresh_ids :: "world \<Rightarrow> bool" where
  "fresh_ids w =
     (distinct (map u_node_id (user_nodes w))
      \<and> (\<forall>cr \<in> set (credential_nodes w). \<forall>k \<ge> next_uuid w. cr_node_id cr \<noteq> uuid_str k)
      \<and> (\<forall>cl \<in> set (claim_nodes_db w). \<forall>k \<ge> next_uuid w. cl_node_id cl \<noteq> uuid_str k))"

text \<open>
  Inside the loop of \<open>decompose\<close>: exactly one Credential node has the given
  \<open>node_id\<close>, and no Claim node carries a UUID yet to be drawn.
\<close>

definition one_credential :: "string \<Rightarrow> world \<Rightarrow> bool" where
  "one_credential cid w =
     (length (filter (\<lambda>cr. cr_node_id cr = cid) (credential_nodes w)) = 1
      \<and> (\<forall>cl \<in> set (claim_nodes_db w). \<forall>k \<ge> next_uuid w. cl_node_id cl \<noteq> uuid_str k))"

text \<open>
  The Claim node that \<open>create_claim_node\<close> stores for a claim: its \<open>node_id\<close>,
  attribute, confidence and creation time, and the string of its value.
\<close>

definition stored_as :: "ClaimNode \<Rightarrow> claim_row \<Rightarrow> bool" where
  "stored_as c row =
     (cl_node_id row = node_id c \<and> cl_attribute row = attribute c
      \<and> cl_value row = (if claim_value c \<noteq> PNone then Some (py_str (claim_value c)) else None)
      \<and> cl_confidence row = confidence c \<and> cl_created_at row = created_at c)"

text \<open>
  A SUPPORTS relationship from a Credential node with the one \<open>node_id\<close> to a Claim
  node with the other.
\<close>

definition supports_link :: "world \<Rightarrow> string \<Rightarrow> string \<Rightarrow> supports_row \<Rightarrow> bool" where
  "supports_link w credential_id claim_id s =
     (\<exists>cr \<in> set (credential_nodes w). \<exists>cl \<in> set (claim_nodes_db w).
        cr_node_id cr = credential_id \<and> cl_node_id cl = claim_id
        \<and> s_source s = cr_nid cr \<and> s_target s = cl_nid cl)"

section \<open>Properties of the credential model\<close>

lemma find_filter: "find P xs = (case filter P xs of [] \<Rightarrow> None | x # _ \<Rightarrow> Some x)"
  by (induction xs) auto

lemma filter_replicate_marker: "filter (\<lambda>t. t \<noteq> m) (replicate n m) = []"
  by (induction n) auto

text \<open>
  Claim C5. The most specific credential type is the first element of the type list
  that differs from \<open>VerifiableCredential\<close>, and \<open>VerifiableCredential\<close> itself when
  there is none, the empty list included. The first element is given twice: by
  \<open>find\<close>, and by the shape of the list (any number of generic markers, then the
  first other element). The two examples of the specification follow.
\<close>

theorem get_credential_type_first_specific:
  "get_credential_type vc =
     (case find (\<lambda>t. t \<noteq> ''VerifiableCredential'') (vc_type vc) of
        Some t \<Rightarrow> t | None \<Rightarrow> ''VerifiableCredential'')
   \<and> get_credential_type (vc\<lparr>vc_type := replicate n ''VerifiableCredential'' @ t # rest\<rparr>) =
       (if t \<noteq> ''VerifiableCredential'' then t else get_credential_type (vc\<lparr>vc_type := rest\<rparr>))
   \<and> get_credential_type (vc\<lparr>vc_type := replicate n ''VerifiableCredential''\<rparr>) = ''VerifiableCredential''
   \<and> get_credential_type (vc\<lparr>vc_type := []\<rparr>) = ''VerifiableCredential''
   \<and> get_credential_type (vc\<lparr>vc_type := [''VerifiableCredential'', ''UniversityDegreeCredential'']\<rparr>)
       = ''UniversityDegreeCredential''
   \<and> get_credential_type (vc\<lparr>vc_type := [''VerifiableCredential'']\<rparr>) = ''VerifiableCredential''"
  by (simp add: get_credential_type_def find_filter filter_replicate_marker split: list.splits)

text \<open>
  Claim C6. For an issuer object with the keys \<open>id\<close> and \<open>name\<close>, \<open>get_issuer_id\<close>
  returns the value of \<open>id\<close> and \<open>get_issuer_name\<close> the value of \<open>name\<close>; for a bare
  string, \<open>get_issuer_id\<close> returns the string and \<open>get_issuer_name\<close> returns \<open>None\<close>.
\<close>

theorem issuer_extraction:
  "(map_of d ''id'' = Some i \<and> map_of d ''name'' = Some n \<longrightarrow>
      get_issuer_id (vc\<lparr>vc_issuer := PDict d\<rparr>) = i
    \<and> get_issuer_name (vc\<lparr>vc_issuer := PDict d\<rparr>) = n)
   \<and> get_issuer_id (vc\<lparr>vc_issuer := PStr s\<rparr>) = PStr s
   \<and> get_issuer_name (vc\<lparr>vc_issuer := PStr s\<rparr>) = PNone"
  by (simp add: get_issuer_id_def get_issuer_name_def dict_get_def dict_get_none_def)

theorem issuer_extraction_witness:
  "get_issuer_id (default_vc\<lparr>vc_issuer := PDict [(''id'', PStr ''did:x''), (''name'', PStr ''Example U'')]\<rparr>)
      = PStr ''did:x''
   \<and> get_issuer_name (default_vc\<lparr>vc_issuer := PDict [(''id'', PStr ''did:x''), (''name'', PStr ''Example U'')]\<rparr>)
      = PStr ''Example U''
   \<and> get_issuer_id (default_vc\<lparr>vc_issuer := PStr ''did:y''\<rparr>) = PStr ''did:y''
   \<and> get_issuer_name (default_vc\<lparr>vc_issuer := PStr ''did:y''\<rparr>) = PNone"
  using issuer_extraction [of "[(''id'', PStr ''did:x''), (''name'', PStr ''Example U'')]"
      "PStr ''did:x''" "PStr ''Example U''" default_vc "''did:y''"]
  by simp

text \<open>
  Claim C10. For an issuer object without the key \<open>id\<close>, \<open>get_issuer_id\<close> returns
  the string of the whole object: it neither fails nor returns \<open>None\<close>.
\<close>

theorem get_issuer_id_fallback:
  "map_of d ''id'' = None \<Longrightarrow>
     get_issuer_id (vc\<lparr>vc_issuer := PDict d\<rparr>) = PStr (py_str (PDict d))"
  by (simp add: get_issuer_id_def dict_get_def)

theorem get_issuer_id_fallback_witness:
  "get_issuer_id (default_vc\<lparr>vc_issuer := PDict [(''name'', PStr ''Example U'')]\<rparr>)
     = PStr (CHR ''{'' # CHR 0x27 # ''name'' @ CHR 0x27 # '': '' @ CHR 0x27 # ''Example U'' @ [CHR 0x27, CHR ''}''])"
  using get_issuer_id_fallback [of "[(''name'', PStr ''Example U'')]" default_vc]
  by (simp add: py_str_def repr_str_def repr_char_def printable_def Let_def)

section \<open>Properties of the event normalization\<close>







section \<open>Properties of the claim extractor\<close>

lemma extract_leaves: "extract_claims d p = map (\<lambda>(ks, v). (foldl step_key p ks, v)) (leaves d)"
  apply (induction d p rule: extract_claims.induct)
   apply simp
  apply (auto simp: step_key_def Let_def split: pyval.splits)
  done

lemma foldl_step_nonempty:
  "p \<noteq> [] \<Longrightarrow> foldl step_key p ks = p @ concat (map (\<lambda>k. ''.'' @ k) ks)"
  by (induction ks arbitrary: p) (auto simp: step_key_def)

lemma join_dot: "join_str ''.'' (k # ks) = k @ concat (map (\<lambda>k. ''.'' @ k) ks)"
  by (induction ks arbitrary: k) auto

lemma step_key_empty: "step_key [] k = k"
  by (simp add: step_key_def)

lemma foldl_step_empty: "foldl step_key [] ks = join_str ''.'' (dropWhile (\<lambda>k. k = []) ks)"
proof (induction ks)
  case Nil show ?case by simp
next
  case (Cons k ks)
  show ?case
  proof (cases "k = []")
    case True
    with Cons show ?thesis by (simp add: step_key_empty)
  next
    case False
    then show ?thesis
      using foldl_step_nonempty [of k ks] join_dot [of k ks] by (simp add: step_key_empty)
  qed
qed

text \<open>
  Claim C3, at a failing input: the subject whose only top-level key is the empty
  string, over the mapping of \<open>a\<close> and \<open>id\<close>. The keys joined by a dot give the paths
  \<open>.a\<close> and \<open>.id\<close>; the extractor, which takes the empty prefix for no prefix, gives
  \<open>a\<close> and \<open>id\<close>, as if the nested attributes were at the top. The decomposer then
  takes the nested \<open>id\<close> for the subject identifier and creates no claim for it. An
  empty key further down is kept in the path: under \<open>a\<close> it gives \<open>a..b\<close>.
\<close>

theorem extract_claims_empty_key:
  "extract_claims empty_key_subject [] = [(''a'', PStr ''x''), (''id'', PStr ''y'')]
   \<and> spec_extract_claims empty_key_subject = [(''.a'', PStr ''x''), (''.id'', PStr ''y'')]
   \<and> extract_claims empty_key_subject [] \<noteq> spec_extract_claims empty_key_subject
   \<and> map (\<lambda>c. (attribute c, claim_value c))
        (result_claims (fst (decompose sample_parser
           (default_vc\<lparr>vc_credential_subject := empty_key_subject\<rparr>)
           ''user-123'' ''event-123'' empty_world)))
       = [(''a'', PStr ''x'')]
   \<and> extract_claims [(''a'', PDict [([], PDict [(''b'', PStr ''x'')])])] [] = [(''a..b'', PStr ''x'')]"
proof -
  have "map (\<lambda>c. (attribute c, claim_value c))
        (result_claims (fst (decompose sample_parser
           (default_vc\<lparr>vc_credential_subject := empty_key_subject\<rparr>)
           ''user-123'' ''event-123'' empty_world)))
       = [(''a'', PStr ''x'')]"
    by code_simp
  then show ?thesis by (simp add: spec_extract_claims_def empty_key_subject_def)
qed

text \<open>
  What the extractor does in general: the path of a leaf is its keys from the root,
  without the leading empty ones, joined by a dot.
\<close>

lemma extract_claims_leading_empty:
  "extract_claims d [] =
     map (\<lambda>(ks, v). (join_str ''.'' (dropWhile (\<lambda>k. k = []) ks), v)) (leaves d)"
  by (simp add: extract_leaves foldl_step_empty)

lemma leaves_origin:
  "(ks, v) \<in> set (leaves d) \<Longrightarrow>
     \<exists>k val rest. (k, val) \<in> set d \<and> ks = k # rest \<and> (\<not> is_mapping val \<longrightarrow> rest = [])"
proof (induction d rule: leaves.induct)
  case 1
  then show ?case by simp
next
  case (2 key val items)
  from "2.prems" consider
      (here) "(ks, v) \<in> set (case val of
          PDict d \<Rightarrow> map (\<lambda>(ks, v). (key # ks, v)) (leaves d)
        | PList xs \<Rightarrow> [([key], PStr (py_str val))]
        | _ \<Rightarrow> [([key], val)])"
    | (later) "(ks, v) \<in> set (leaves items)"
    by auto
  then show ?case
  proof cases
    case here
    then have "\<exists>rest. ks = key # rest \<and> (\<not> is_mapping val \<longrightarrow> rest = [])"
      by (cases val) (auto simp: is_mapping_def)
    then show ?thesis by auto
  next
    case later
    from "2.IH"(2) [OF later] show ?thesis by auto
  qed
qed

lemma leaves_same_path:
  assumes "\<forall>(k, val) \<in> set d. k = [] \<longrightarrow> \<not> is_mapping val" and "(ks, v) \<in> set (leaves d)"
  shows "join_str ''.'' (dropWhile (\<lambda>k. k = []) ks) = join_str ''.'' ks"
proof -
  from leaves_origin [OF assms(2)]
  obtain k val rest where o: "(k, val) \<in> set d" "ks = k # rest" "\<not> is_mapping val \<longrightarrow> rest = []"
    by blast
  show ?thesis
  proof (cases "k = []")
    case True
    with assms(1) o(1) have "\<not> is_mapping val" by auto
    with o(3) have "rest = []" by simp
    with True o(2) show ?thesis by simp
  next
    case False
    with o(2) show ?thesis by simp
  qed
qed

text \<open>
  Away from such input the extractor is the flattening of the specification: for a
  mapping with no nested mapping under an empty top-level key it returns the leaves
  of the mapping, depth first and in insertion order, each with its keys from the
  root joined by a dot; a list is one leaf, whose value is the string of the whole
  list; any other value that is not a mapping is a leaf as it is.
\<close>

lemma extract_claims_flattening:
  "((\<forall>(k, val) \<in> set d. k = [] \<longrightarrow> \<not> is_mapping val)
      \<longrightarrow> extract_claims d [] = spec_extract_claims d)
   \<and> extract_claims alice_subject [] =
       [(''name'', PStr ''Alice''), (''address.city'', PStr ''NY''), (''address.country'', PStr ''USA'')]"
proof (intro conjI impI)
  show "extract_claims alice_subject [] =
       [(''name'', PStr ''Alice''), (''address.city'', PStr ''NY''), (''address.country'', PStr ''USA'')]"
    by (simp add: alice_subject_def)
  assume top: "\<forall>(k, val) \<in> set d. k = [] \<longrightarrow> \<not> is_mapping val"
  show "extract_claims d [] = spec_extract_claims d"
    unfolding extract_claims_leading_empty spec_extract_claims_def
    using leaves_same_path [OF top] by (auto intro!: map_cong)
qed

lemma extract_claims_flattening_examples:
  "extract_claims alice_subject [] = spec_extract_claims alice_subject
   \<and> spec_extract_claims alice_subject =
       [(''name'', PStr ''Alice''), (''address.city'', PStr ''NY''), (''address.country'', PStr ''USA'')]
   \<and> extract_claims [([], PInt 5), (''a'', PDict [([], PList [PInt 1])])] []
       = spec_extract_claims [([], PInt 5), (''a'', PDict [([], PList [PInt 1])])]
   \<and> spec_extract_claims [([], PInt 5), (''a'', PDict [([], PList [PInt 1])])]
       = [([], PInt 5), (''a.'', PStr ''[1]'')]"
proof -
  have "extract_claims alice_subject [] = spec_extract_claims alice_subject"
    using extract_claims_flattening [of alice_subject]
    by (simp add: alice_subject_def is_mapping_def)
  moreover have "extract_claims [([], PInt 5), (''a'', PDict [([], PList [PInt 1])])] []
       = spec_extract_claims [([], PInt 5), (''a'', PDict [([], PList [PInt 1])])]"
    using extract_claims_flattening [of "[([], PInt 5), (''a'', PDict [([], PList [PInt 1])])]"]
    by (simp add: is_mapping_def)
  moreover have "spec_extract_claims alice_subject =
       [(''name'', PStr ''Alice''), (''address.city'', PStr ''NY''), (''address.country'', PStr ''USA'')]"
    by (simp add: spec_extract_claims_def alice_subject_def)
  moreover have "spec_extract_claims [([], PInt 5), (''a'', PDict [([], PList [PInt 1])])]
       = [([], PInt 5), (''a.'', PStr ''[1]'')]"
    by code_simp
  ultimately show ?thesis by simp
qed

section \<open>Properties of the decomposer\<close>

lemma single_Cons: "single (r # rs) w = (Inr r, w)"
  by (simp add: single_def ok_def)

lemma single_nonempty: "rows \<noteq> [] \<Longrightarrow> single rows w = (Inr (hd rows), w)"
  by (cases rows) (simp_all add: single_Cons)

lemma create_user_node_ok:
  "\<exists>w'. create_user_node user_id w = (Inr user_id, w')
        \<and> (\<exists>u \<in> set (user_nodes w'). u_node_id u = user_id)"
proof (cases "filter (\<lambda>u. u_node_id u = user_id) (user_nodes w)")
  case Nil
  then show ?thesis
    by (simp add: create_user_node_def single_Cons)
next
  case (Cons m ms)
  then have "m \<in> set (filter (\<lambda>u. u_node_id u = user_id) (user_nodes w))" by simp
  then have "m \<in> set (user_nodes w)" and "u_node_id m = user_id" by simp_all
  with Cons show ?thesis
    by (auto simp: create_user_node_def single_Cons)
qed

lemma new_credential_node_ok:
  "\<exists>n w'. new_credential_node vc event_id idate w = (Inr n, w')
      \<and> issuance_date n = idate
      \<and> issuer n = get_issuer_id vc
      \<and> credential_type n = get_credential_type vc
      \<and> user_nodes w' = user_nodes w"
  by (simp add: new_credential_node_def seq_def uuid4_def utcnow_def ok_def
      CredentialNode_init_def Let_def)

lemma add_credential_has:
  "\<exists>cr \<in> set (credential_nodes (add_credential c u w)).
      cr_node_id cr = node_id c \<and> cr_issuance_date cr = issuance_date c"
  by (simp add: add_credential_def)

lemma fold_add_credential_has:
  "us \<noteq> [] \<Longrightarrow>
   \<exists>cr \<in> set (credential_nodes (fold (add_credential c) us w)).
      cr_node_id cr = node_id c \<and> cr_issuance_date cr = issuance_date c"
  by (cases us rule: rev_cases) (simp_all add: add_credential_has)

lemma fold_add_credential_supports:
  "supports_edges (fold (add_credential c) us w) = supports_edges w"
  by (induction us arbitrary: w) (simp_all add: add_credential_def)

lemma create_credential_node_ok:
  assumes "\<exists>u \<in> set (user_nodes w). u_node_id u = user_id"
  shows "\<exists>w'. create_credential_node c user_id w = (Inr (node_id c), w')
      \<and> (\<exists>cr \<in> set (credential_nodes w').
            cr_node_id cr = node_id c \<and> cr_issuance_date cr = issuance_date c)"
proof -
  let ?m = "filter (\<lambda>u. u_node_id u = user_id) (user_nodes w)"
  from assms have ne: "?m \<noteq> []" by (auto simp: filter_empty_conv)
  then have "map (\<lambda>u. node_id c) ?m \<noteq> []" by simp
  then have "single (map (\<lambda>u. node_id c) ?m) (fold (add_credential c) ?m w)
      = (Inr (node_id c), fold (add_credential c) ?m w)"
    using ne by (cases ?m) (simp_all add: single_Cons)
  with fold_add_credential_has [OF ne] show ?thesis
    by (simp add: create_credential_node_def Let_def)
qed

lemma fold_add_supports:
  "length (fst (fold (add_supports t) ps acc)) = length (fst acc) + length ps
   \<and> credential_nodes (snd (fold (add_supports t) ps acc)) = credential_nodes (snd acc)
   \<and> length (supports_edges (snd (fold (add_supports t) ps acc)))
       = length (supports_edges (snd acc)) + length ps"
  by (induction ps arbitrary: acc) (auto simp: add_supports_def split: prod.splits)

lemma create_supports_edge_ok:
  assumes "\<exists>cr \<in> set (credential_nodes w). cr_node_id cr = cid"
    and "\<exists>cl \<in> set (claim_nodes_db w). cl_node_id cl = clid"
  shows "\<exists>e w'. create_supports_edge cid clid w = (Inr e, w')
      \<and> credential_nodes w' = credential_nodes w
      \<and> length (supports_edges w) < length (supports_edges w')"
proof -
  let ?ps = "List.product (filter (\<lambda>cr. cr_node_id cr = cid) (credential_nodes w))
            (filter (\<lambda>cl. cl_node_id cl = clid) (claim_nodes_db w))"
  let ?r = "fold (add_supports (DateTime (now w))) ?ps ([], w\<lparr>now := now w + 1\<rparr>)"
  from assms have "filter (\<lambda>cr. cr_node_id cr = cid) (credential_nodes w) \<noteq> []"
    and "filter (\<lambda>cl. cl_node_id cl = clid) (claim_nodes_db w) \<noteq> []"
    by (auto simp: filter_empty_conv)
  then have "length ?ps > 0" by (simp add: length_product)
  with fold_add_supports [of "DateTime (now w)" ?ps "([], w\<lparr>now := now w + 1\<rparr>)"]
  have "fst ?r \<noteq> []" and "credential_nodes (snd ?r) = credential_nodes w"
    and "length (supports_edges w) < length (supports_edges (snd ?r))"
    by auto
  then show ?thesis
    by (auto simp: create_supports_edge_def Let_def single_nonempty split: prod.splits)
qed

lemma decompose_claim_ok:
  assumes "\<exists>cr \<in> set (credential_nodes w). cr_node_id cr = cid"
  shows "\<exists>n w'. decompose_claim cid attr v w = (Inr n, w')
      \<and> attribute n = attr \<and> claim_value n = v \<and> confidence n = 1
      \<and> credential_nodes w' = credential_nodes w
      \<and> length (supports_edges w) < length (supports_edges w')"
proof -
  obtain n w1 where n: "new_claim_node attr v w = (Inr n, w1)"
    "attribute n = attr" "claim_value n = v" "confidence n = 1"
    "credential_nodes w1 = credential_nodes w" "supports_edges w1 = supports_edges w"
    by (simp add: new_claim_node_def seq_def uuid4_def utcnow_def ok_def ClaimNode_init_def)
  obtain w2 where w2: "create_claim_node n w1 = (Inr (node_id n), w2)"
    "credential_nodes w2 = credential_nodes w1" "supports_edges w2 = supports_edges w1"
    "\<exists>cl \<in> set (claim_nodes_db w2). cl_node_id cl = node_id n"
    by (simp add: create_claim_node_def single_Cons)
  from assms n(5) w2(2) have "\<exists>cr \<in> set (credential_nodes w2). cr_node_id cr = cid" by simp
  from create_supports_edge_ok [OF this w2(4)]
  obtain e w3 where w3: "create_supports_edge cid (node_id n) w2 = (Inr e, w3)"
    "credential_nodes w3 = credential_nodes w2"
    "length (supports_edges w2) < length (supports_edges w3)" by blast
  have "decompose_claim cid attr v w = (Inr n, w3)"
    by (simp add: decompose_claim_def seq_def n(1) w2(1) w3(1) ok_def)
  with n w2 w3 show ?thesis by simp
qed

lemma decompose_claims_ok:
  assumes "\<exists>cr \<in> set (credential_nodes w). cr_node_id cr = cid"
  shows "\<exists>ns w'. decompose_claims cid claims acc k w = (Inr (acc @ ns, k + length ns), w')
      \<and> map (\<lambda>c. (attribute c, claim_value c)) ns = filter (\<lambda>(a, v). a \<noteq> ''id'') claims
      \<and> (\<forall>c \<in> set ns. confidence c = 1)
      \<and> credential_nodes w' = credential_nodes w
      \<and> length (supports_edges w) + length ns \<le> length (supports_edges w')"
  using assms
proof (induction claims arbitrary: acc k w)
  case Nil
  then show ?case by simp
next
  case (Cons p claims)
  obtain attr v where p: "p = (attr, v)" by (cases p)
  show ?case
  proof (cases "attr = ''id''")
    case True
    with Cons.IH [OF Cons.prems, of acc k] p show ?thesis by simp
  next
    case False
    from decompose_claim_ok [OF Cons.prems, of attr v]
    obtain n w1 where n: "decompose_claim cid attr v w = (Inr n, w1)"
      "attribute n = attr" "claim_value n = v" "confidence n = 1"
      "credential_nodes w1 = credential_nodes w"
      "length (supports_edges w) < length (supports_edges w1)" by blast
    from Cons.prems n(5) have "\<exists>cr \<in> set (credential_nodes w1). cr_node_id cr = cid" by simp
    from Cons.IH [OF this, of "acc @ [n]" "k + 1"]
    obtain ns w' where r: "decompose_claims cid claims (acc @ [n]) (k + 1) w1
          = (Inr ((acc @ [n]) @ ns, k + 1 + length ns), w')"
      "map (\<lambda>c. (attribute c, claim_value c)) ns = filter (\<lambda>(a, v). a \<noteq> ''id'') claims"
      "\<forall>c \<in> set ns. confidence c = 1"
      "credential_nodes w' = credential_nodes w1"
      "length (supports_edges w1) + length ns \<le> length (supports_edges w')" by blast
    have "decompose_claims cid (p # claims) acc k w = (Inr (acc @ (n # ns), k + length (n # ns)), w')"
      using False p n(1) r(1) by simp
    moreover have "map (\<lambda>c. (attribute c, claim_value c)) (n # ns)
        = filter (\<lambda>(a, v). a \<noteq> ''id'') (p # claims)"
      using False p n(2,3) r(2) by simp
    moreover have "\<forall>c \<in> set (n # ns). confidence c = 1" using n(4) r(3) by simp
    moreover have "credential_nodes w' = credential_nodes w" using n(5) r(4) by simp
    moreover have "length (supports_edges w) + length (n # ns) \<le> length (supports_edges w')"
      using n(6) r(5) by simp
    ultimately show ?thesis by blast
  qed
qed

lemma decompose_ok:
  "\<exists>r w'. decompose fromisoformat vc user_id event_id w = (Inr r, w')
     \<and> edges_created r = length (claim_nodes r)
     \<and> map (\<lambda>c. (attribute c, claim_value c)) (claim_nodes r)
         = filter (\<lambda>(a, v). a \<noteq> ''id'') (extract_claims (vc_credential_subject vc) [])
     \<and> (\<forall>c \<in> set (claim_nodes r). confidence c = 1)
     \<and> issuance_date (credential_node r) = parse_issuance_date fromisoformat vc
     \<and> issuer (credential_node r) = get_issuer_id vc
     \<and> credential_type (credential_node r) = get_credential_type vc
     \<and> (\<exists>cr \<in> set (credential_nodes w').
           cr_node_id cr = node_id (credential_node r)
         \<and> cr_issuance_date cr = parse_issuance_date fromisoformat vc)
     \<and> length (supports_edges w) + length (claim_nodes r) \<le> length (supports_edges w')"
proof -
  obtain w1 where w1: "create_user_node user_id w = (Inr user_id, w1)"
    "\<exists>u \<in> set (user_nodes w1). u_node_id u = user_id"
    using create_user_node_ok by blast
  obtain n w2 where n: "new_credential_node vc event_id (parse_issuance_date fromisoformat vc) w1 = (Inr n, w2)"
    "issuance_date n = parse_issuance_date fromisoformat vc"
    "issuer n = get_issuer_id vc" "credential_type n = get_credential_type vc"
    "user_nodes w2 = user_nodes w1"
    using new_credential_node_ok by blast
  from w1(2) n(5) have "\<exists>u \<in> set (user_nodes w2). u_node_id u = user_id" by simp
  from create_credential_node_ok [OF this, of n]
  obtain w3 where w3: "create_credential_node n user_id w2 = (Inr (node_id n), w3)"
    "\<exists>cr \<in> set (credential_nodes w3). cr_node_id cr = node_id n \<and> cr_issuance_date cr = issuance_date n"
    by blast
  then have "\<exists>cr \<in> set (credential_nodes w3). cr_node_id cr = node_id n" by blast
  from decompose_claims_ok [OF this, of "extract_claims (vc_credential_subject vc) []" "[]" 0]
  obtain ns w4 where w4:
    "decompose_claims (node_id n) (extract_claims (vc_credential_subject vc) []) [] 0 w3
       = (Inr (ns, length ns), w4)"
    "map (\<lambda>c. (attribute c, claim_value c)) ns
       = filter (\<lambda>(a, v). a \<noteq> ''id'') (extract_claims (vc_credential_subject vc) [])"
    "\<forall>c \<in> set ns. confidence c = 1"
    "credential_nodes w4 = credential_nodes w3"
    "length (supports_edges w3) + length ns \<le> length (supports_edges w4)" by auto
  let ?r = "\<lparr>credential_node = n, claim_nodes = ns, fragment_node = None,
             edges_created = length ns, conflicts_detected = 0\<rparr>"
  have run: "decompose fromisoformat vc user_id event_id w = (Inr ?r, w4)"
    by (simp add: decompose_def seq_def w1(1) n(1) w3(1) w4(1) ok_def)
  have w34: "supports_edges w3 = supports_edges w"
  proof -
    have "supports_edges w1 = supports_edges w"
      using w1(1) by (auto simp: create_user_node_def single_def ok_def raise_def Let_def
          split: if_splits list.splits)
    moreover have "supports_edges w2 = supports_edges w1"
      using n(1) by (auto simp: new_credential_node_def seq_def uuid4_def utcnow_def ok_def)
    moreover have "supports_edges w3 = supports_edges w2"
      using w3(1) fold_add_credential_supports
      by (auto simp: create_credential_node_def single_def ok_def raise_def Let_def
          split: list.splits)
    ultimately show ?thesis by simp
  qed
  from w3(2) w4(4) n(2)
  have stored: "\<exists>cr \<in> set (credential_nodes w4).
      cr_node_id cr = node_id n \<and> cr_issuance_date cr = parse_issuance_date fromisoformat vc"
    by simp
  show ?thesis
    using run w4(2,3,5) n(2,3,4) stored w34 by (intro exI [of _ ?r] exI [of _ w4]) simp
qed

lemma sample_extract: "filter (\<lambda>(a, v). a \<noteq> ''id'') (extract_claims sample_subject []) =
   [(''name'', PStr ''John Doe''), (''email'', PStr ''j@x.com''), (''degree.type'', PStr ''BS''), (''degree.name'', PStr ''CS'')]"
  by (simp add: sample_subject_def)

text \<open>
  With fresh identifiers every \<open>MATCH\<close> of \<open>decompose\<close> finds exactly one node, so each
  claim gets exactly one SUPPORTS edge, and the identifiers stay fresh.
\<close>

lemma digit_char_inj: "a < 10 \<Longrightarrow> b < 10 \<Longrightarrow> digit_char a = digit_char b \<Longrightarrow> a = b"
proof -
  assume a: "a < 10" and b: "b < 10" and e: "digit_char a = digit_char b"
  from e have "(of_char (digit_char a) :: nat) = of_char (digit_char b)" by simp
  then have "(48 + a) mod 256 = (48 + b) mod 256"
    by (simp add: digit_char_def)
  with a b show "a = b" by simp
qed

lemma str_nat_length: "length (str_nat n) = (if n < 10 then 1 else Suc (length (str_nat (n div 10))))"
  by (subst str_nat.simps) simp

lemma str_nat_nonempty: "str_nat n \<noteq> []"
  using str_nat_length [of n] by (auto split: if_splits)

lemma str_nat_inj: "str_nat n = str_nat m \<Longrightarrow> n = m"
proof (induction n arbitrary: m rule: str_nat.induct)
  case (1 n)
  show ?case
  proof (cases "n < 10")
    case n: True
    show ?thesis
    proof (cases "m < 10")
      case True
      with n 1(2) have "[digit_char n] = [digit_char m]"
        by (simp add: str_nat.simps [of n] str_nat.simps [of m])
      with n True show ?thesis using digit_char_inj by simp
    next
      case False
      then have "length (str_nat m) \<ge> 2"
        using str_nat_length [of m] str_nat_nonempty [of "m div 10"]
        by (cases "str_nat (m div 10)") auto
      moreover from n have "length (str_nat n) = 1" using str_nat_length [of n] by simp
      ultimately show ?thesis using 1(2) by simp
    qed
  next
    case n: False
    show ?thesis
    proof (cases "m < 10")
      case True
      from n have "length (str_nat n) \<ge> 2"
        using str_nat_length [of n] str_nat_nonempty [of "n div 10"]
        by (cases "str_nat (n div 10)") auto
      moreover from True have "length (str_nat m) = 1" using str_nat_length [of m] by simp
      ultimately show ?thesis using 1(2) by simp
    next
      case False
      with n 1(2) have "str_nat (n div 10) @ [digit_char (n mod 10)]
          = str_nat (m div 10) @ [digit_char (m mod 10)]"
        by (simp add: str_nat.simps [of n] str_nat.simps [of m])
      then have a: "str_nat (n div 10) = str_nat (m div 10)"
        and b: "digit_char (n mod 10) = digit_char (m mod 10)" by simp_all
      from 1(1) [OF n a] have "n div 10 = m div 10" .
      moreover from b have "n mod 10 = m mod 10" using digit_char_inj by simp
      ultimately show ?thesis by (metis div_mult_mod_eq)
    qed
  qed
qed

lemma uuid_str_inj: "uuid_str a = uuid_str b \<Longrightarrow> a = b"
  by (simp add: uuid_str_def str_nat_inj)

lemma filter_distinct_le_one:
  "distinct (map f xs) \<Longrightarrow> length (filter (\<lambda>x. f x = a) xs) \<le> 1"
proof (induction xs)
  case Nil
  then show ?case by simp
next
  case (Cons x xs)
  show ?case
  proof (cases "f x = a")
    case True
    with Cons.prems have "a \<notin> f ` set xs" by auto
    then have "filter (\<lambda>x. f x = a) xs = []" by (auto simp: filter_empty_conv)
    with True show ?thesis by simp
  next
    case False
    with Cons show ?thesis by simp
  qed
qed

lemma create_user_node_exact:
  assumes "fresh_ids w"
  shows "\<exists>w'. create_user_node user_id w = (Inr user_id, w')
      \<and> length (filter (\<lambda>u. u_node_id u = user_id) (user_nodes w')) = 1
      \<and> fresh_ids w'
      \<and> supports_edges w' = supports_edges w
      \<and> credential_nodes w' = credential_nodes w"
proof (cases "filter (\<lambda>u. u_node_id u = user_id) (user_nodes w)")
  case Nil
  then have "user_id \<notin> u_node_id ` set (user_nodes w)" by (auto simp: filter_empty_conv)
  with Nil assms show ?thesis
    by (auto simp: create_user_node_def single_Cons fresh_ids_def)
next
  case (Cons m ms)
  then have "m \<in> set (filter (\<lambda>u. u_node_id u = user_id) (user_nodes w))" by simp
  then have m: "u_node_id m = user_id" by simp
  from assms have "length (filter (\<lambda>u. u_node_id u = user_id) (user_nodes w)) \<le> 1"
    using filter_distinct_le_one [of u_node_id "user_nodes w" user_id] by (simp add: fresh_ids_def)
  with Cons have "length (filter (\<lambda>u. u_node_id u = user_id) (user_nodes w)) = 1" by simp
  with Cons m assms show ?thesis
    by (auto simp: create_user_node_def single_Cons)
qed

lemma new_credential_node_exact:
  "\<exists>n w'. new_credential_node vc event_id idate w = (Inr n, w')
      \<and> node_id n = uuid_str (next_uuid w)
      \<and> next_uuid w' = next_uuid w + 1
      \<and> user_nodes w' = user_nodes w
      \<and> credential_nodes w' = credential_nodes w
      \<and> claim_nodes_db w' = claim_nodes_db w
      \<and> supports_edges w' = supports_edges w"
  by (simp add: new_credential_node_def seq_def uuid4_def utcnow_def ok_def
      CredentialNode_init_def Let_def)

lemma create_credential_node_exact:
  assumes "length (filter (\<lambda>u. u_node_id u = user_id) (user_nodes w)) = 1"
    and "\<forall>cr \<in> set (credential_nodes w). cr_node_id cr \<noteq> node_id c"
  shows "\<exists>w' row. create_credential_node c user_id w = (Inr (node_id c), w')
      \<and> length (filter (\<lambda>cr. cr_node_id cr = node_id c) (credential_nodes w')) = 1
      \<and> claim_nodes_db w' = claim_nodes_db w
      \<and> next_uuid w' = next_uuid w
      \<and> supports_edges w' = supports_edges w
      \<and> user_nodes w' = user_nodes w
      \<and> credential_nodes w' = credential_nodes w @ [row]
      \<and> cr_node_id row = node_id c"
proof -
  from assms(1) obtain u where u: "filter (\<lambda>u. u_node_id u = user_id) (user_nodes w) = [u]"
    by (cases "filter (\<lambda>u. u_node_id u = user_id) (user_nodes w)") auto
  from assms(2) have "filter (\<lambda>cr. cr_node_id cr = node_id c) (credential_nodes w) = []"
    by (auto simp: filter_empty_conv)
  then show ?thesis
    by (simp add: create_credential_node_def u single_Cons add_credential_def)
qed

lemma create_supports_edge_exact:
  assumes "length (filter (\<lambda>cr. cr_node_id cr = cid) (credential_nodes w)) = 1"
    and "length (filter (\<lambda>cl. cl_node_id cl = clid) (claim_nodes_db w)) = 1"
  shows "\<exists>e w'. create_supports_edge cid clid w = (Inr e, w')
      \<and> length (supports_edges w') = length (supports_edges w) + 1
      \<and> credential_nodes w' = credential_nodes w
      \<and> claim_nodes_db w' = claim_nodes_db w
      \<and> user_nodes w' = user_nodes w
      \<and> next_uuid w' = next_uuid w + 1"
proof -
  from assms(1) obtain cr where cr: "filter (\<lambda>cr. cr_node_id cr = cid) (credential_nodes w) = [cr]"
    by (cases "filter (\<lambda>cr. cr_node_id cr = cid) (credential_nodes w)") auto
  from assms(2) obtain cl where cl: "filter (\<lambda>cl. cl_node_id cl = clid) (claim_nodes_db w) = [cl]"
    by (cases "filter (\<lambda>cl. cl_node_id cl = clid) (claim_nodes_db w)") auto
  show ?thesis
    by (simp add: create_supports_edge_def cr cl add_supports_def single_Cons)
qed

lemma decompose_claim_exact:
  assumes "one_credential cid w"
  shows "\<exists>n w'. decompose_claim cid attr v w = (Inr n, w')
      \<and> one_credential cid w'
      \<and> length (supports_edges w') = length (supports_edges w) + 1
      \<and> user_nodes w' = user_nodes w
      \<and> credential_nodes w' = credential_nodes w
      \<and> next_uuid w \<le> next_uuid w'"
proof -
  let ?k = "next_uuid w"
  obtain n w1 where n: "new_claim_node attr v w = (Inr n, w1)"
    "node_id n = uuid_str ?k" "next_uuid w1 = ?k + 1"
    "credential_nodes w1 = credential_nodes w" "claim_nodes_db w1 = claim_nodes_db w"
    "supports_edges w1 = supports_edges w" "user_nodes w1 = user_nodes w"
    by (simp add: new_claim_node_def seq_def uuid4_def utcnow_def ok_def ClaimNode_init_def)
  obtain w2 row where w2: "create_claim_node n w1 = (Inr (node_id n), w2)"
    "credential_nodes w2 = credential_nodes w1" "supports_edges w2 = supports_edges w1"
    "claim_nodes_db w2 = claim_nodes_db w1 @ [row]" "cl_node_id row = node_id n"
    "next_uuid w2 = next_uuid w1" "user_nodes w2 = user_nodes w1"
    by (simp add: create_claim_node_def single_Cons)
  from assms have fresh: "\<forall>cl \<in> set (claim_nodes_db w). \<forall>k \<ge> ?k. cl_node_id cl \<noteq> uuid_str k"
    and one: "length (filter (\<lambda>cr. cr_node_id cr = cid) (credential_nodes w)) = 1"
    by (simp_all add: one_credential_def)
  from fresh have "filter (\<lambda>cl. cl_node_id cl = uuid_str ?k) (claim_nodes_db w) = []"
    by (auto simp: filter_empty_conv)
  then have c1: "length (filter (\<lambda>cl. cl_node_id cl = node_id n) (claim_nodes_db w2)) = 1"
    by (simp add: w2(4,5) n(2,5))
  from one have c2: "length (filter (\<lambda>cr. cr_node_id cr = cid) (credential_nodes w2)) = 1"
    by (simp add: w2(2) n(4))
  from create_supports_edge_exact [OF c2 c1]
  obtain e w3 where w3: "create_supports_edge cid (node_id n) w2 = (Inr e, w3)"
    "length (supports_edges w3) = length (supports_edges w2) + 1"
    "credential_nodes w3 = credential_nodes w2"
    "claim_nodes_db w3 = claim_nodes_db w2"
    "next_uuid w3 = next_uuid w2 + 1" "user_nodes w3 = user_nodes w2" by blast
  have run: "decompose_claim cid attr v w = (Inr n, w3)"
    by (simp add: decompose_claim_def seq_def n(1) w2(1) w3(1) ok_def)
  have "\<forall>cl \<in> set (claim_nodes_db w3). \<forall>k \<ge> next_uuid w3. cl_node_id cl \<noteq> uuid_str k"
  proof (intro ballI allI impI)
    fix cl k assume cl: "cl \<in> set (claim_nodes_db w3)" and k: "next_uuid w3 \<le> k"
    from k have k2: "?k + 2 \<le> k" by (simp add: w3(5) w2(6) n(3))
    from cl have "cl \<in> set (claim_nodes_db w) \<or> cl = row" by (auto simp: w3(4) w2(4) n(5))
    then show "cl_node_id cl \<noteq> uuid_str k"
    proof
      assume "cl \<in> set (claim_nodes_db w)"
      with fresh k2 show ?thesis by simp
    next
      assume "cl = row"
      then have "cl_node_id cl = uuid_str ?k" by (simp add: w2(5) n(2))
      moreover from k2 have "?k \<noteq> k" by simp
      ultimately show ?thesis using uuid_str_inj by auto
    qed
  qed
  moreover have "length (filter (\<lambda>cr. cr_node_id cr = cid) (credential_nodes w3)) = 1"
    using c2 by (simp add: w3(3))
  ultimately have "one_credential cid w3" by (simp add: one_credential_def)
  moreover have "length (supports_edges w3) = length (supports_edges w) + 1"
    by (simp add: w3(2) w2(3) n(6))
  moreover have "user_nodes w3 = user_nodes w" by (simp add: w3(6) w2(7) n(7))
  moreover have "credential_nodes w3 = credential_nodes w" by (simp add: w3(3) w2(2) n(4))
  moreover have "next_uuid w \<le> next_uuid w3" by (simp add: w3(5) w2(6) n(3))
  ultimately show ?thesis using run by blast
qed

lemma decompose_claims_exact:
  assumes "one_credential cid w"
  shows "\<exists>ns w'. decompose_claims cid claims acc k w = (Inr (acc @ ns, k + length ns), w')
      \<and> length (supports_edges w') = length (supports_edges w) + length ns
      \<and> one_credential cid w'
      \<and> user_nodes w' = user_nodes w
      \<and> credential_nodes w' = credential_nodes w
      \<and> next_uuid w \<le> next_uuid w'"
  using assms
proof (induction claims arbitrary: acc k w)
  case Nil
  then show ?case by simp
next
  case (Cons p claims)
  obtain attr v where p: "p = (attr, v)" by (cases p)
  show ?case
  proof (cases "attr = ''id''")
    case True
    with Cons.IH [OF Cons.prems, of acc k] p show ?thesis by simp
  next
    case False
    from decompose_claim_exact [OF Cons.prems, of attr v]
    obtain n w1 where n: "decompose_claim cid attr v w = (Inr n, w1)"
      "one_credential cid w1"
      "length (supports_edges w1) = length (supports_edges w) + 1"
      "user_nodes w1 = user_nodes w" "credential_nodes w1 = credential_nodes w"
      "next_uuid w \<le> next_uuid w1" by blast
    from Cons.IH [OF n(2), of "acc @ [n]" "k + 1"]
    obtain ns w' where r: "decompose_claims cid claims (acc @ [n]) (k + 1) w1
          = (Inr ((acc @ [n]) @ ns, k + 1 + length ns), w')"
      "length (supports_edges w') = length (supports_edges w1) + length ns"
      "one_credential cid w'"
      "user_nodes w' = user_nodes w1" "credential_nodes w' = credential_nodes w1"
      "next_uuid w1 \<le> next_uuid w'" by blast
    have "decompose_claims cid (p # claims) acc k w = (Inr (acc @ (n # ns), k + length (n # ns)), w')"
      using False p n(1) r(1) by simp
    moreover have "length (supports_edges w') = length (supports_edges w) + length (n # ns)"
      using n(3) r(2) by simp
    moreover have "user_nodes w' = user_nodes w" "credential_nodes w' = credential_nodes w"
      "next_uuid w \<le> next_uuid w'"
      using n(4,5,6) r(4,5,6) by simp_all
    ultimately show ?thesis using r(3) by blast
  qed
qed

lemma decompose_exact:
  assumes "fresh_ids w"
  shows "\<exists>r w'. decompose fromisoformat vc user_id event_id w = (Inr r, w')
     \<and> length (supports_edges w') = length (supports_edges w) + length (claim_nodes r)
     \<and> fresh_ids w'
     \<and> length (credential_nodes w') = length (credential_nodes w) + 1"
proof -
  from create_user_node_exact [OF assms, of user_id]
  obtain w1 where w1: "create_user_node user_id w = (Inr user_id, w1)"
    "length (filter (\<lambda>u. u_node_id u = user_id) (user_nodes w1)) = 1"
    "fresh_ids w1" "supports_edges w1 = supports_edges w"
    "credential_nodes w1 = credential_nodes w" by blast
  obtain n w2 where n: "new_credential_node vc event_id (parse_issuance_date fromisoformat vc) w1 = (Inr n, w2)"
    "node_id n = uuid_str (next_uuid w1)" "next_uuid w2 = next_uuid w1 + 1"
    "user_nodes w2 = user_nodes w1" "credential_nodes w2 = credential_nodes w1"
    "claim_nodes_db w2 = claim_nodes_db w1" "supports_edges w2 = supports_edges w1"
    using new_credential_node_exact by blast
  from w1(3) have f1: "\<forall>cr \<in> set (credential_nodes w1). \<forall>k \<ge> next_uuid w1. cr_node_id cr \<noteq> uuid_str k"
    and f2: "\<forall>cl \<in> set (claim_nodes_db w1). \<forall>k \<ge> next_uuid w1. cl_node_id cl \<noteq> uuid_str k"
    and f3: "distinct (map u_node_id (user_nodes w1))"
    by (simp_all add: fresh_ids_def)
  from f1 n(2,5) have "\<forall>cr \<in> set (credential_nodes w2). cr_node_id cr \<noteq> node_id n" by simp
  moreover from w1(2) n(4) have "length (filter (\<lambda>u. u_node_id u = user_id) (user_nodes w2)) = 1" by simp
  ultimately obtain w3 row where w3: "create_credential_node n user_id w2 = (Inr (node_id n), w3)"
    "length (filter (\<lambda>cr. cr_node_id cr = node_id n) (credential_nodes w3)) = 1"
    "claim_nodes_db w3 = claim_nodes_db w2" "next_uuid w3 = next_uuid w2"
    "supports_edges w3 = supports_edges w2" "user_nodes w3 = user_nodes w2"
    "credential_nodes w3 = credential_nodes w2 @ [row]" "cr_node_id row = node_id n"
    using create_credential_node_exact [of user_id w2 n] by blast
  from f2 w3(3,4) n(3,6) have "\<forall>cl \<in> set (claim_nodes_db w3). \<forall>k \<ge> next_uuid w3. cl_node_id cl \<noteq> uuid_str k"
    by simp
  with w3(2) have "one_credential (node_id n) w3" by (simp add: one_credential_def)
  from decompose_claims_exact [OF this, of "extract_claims (vc_credential_subject vc) []" "[]" 0]
  obtain ns w4 where w4:
    "decompose_claims (node_id n) (extract_claims (vc_credential_subject vc) []) [] 0 w3
       = (Inr (ns, length ns), w4)"
    "length (supports_edges w4) = length (supports_edges w3) + length ns"
    "one_credential (node_id n) w4"
    "user_nodes w4 = user_nodes w3" "credential_nodes w4 = credential_nodes w3"
    "next_uuid w3 \<le> next_uuid w4" by auto
  let ?r = "\<lparr>credential_node = n, claim_nodes = ns, fragment_node = None,
             edges_created = length ns, conflicts_detected = 0\<rparr>"
  have run: "decompose fromisoformat vc user_id event_id w = (Inr ?r, w4)"
    by (simp add: decompose_def seq_def w1(1) n(1) w3(1) w4(1) ok_def)
  have count: "length (supports_edges w4) = length (supports_edges w) + length (claim_nodes ?r)"
    by (simp add: w4(2) w3(5) n(7) w1(4))
  have "\<forall>cr \<in> set (credential_nodes w4). \<forall>k \<ge> next_uuid w4. cr_node_id cr \<noteq> uuid_str k"
  proof (intro ballI allI impI)
    fix cr k assume cr: "cr \<in> set (credential_nodes w4)" and k: "next_uuid w4 \<le> k"
    from k w4(6) have k1: "next_uuid w1 + 1 \<le> k" by (simp add: w3(4) n(3))
    from cr have "cr \<in> set (credential_nodes w1) \<or> cr = row" by (auto simp: w4(5) w3(7) n(5))
    then show "cr_node_id cr \<noteq> uuid_str k"
    proof
      assume "cr \<in> set (credential_nodes w1)"
      with f1 k1 show ?thesis by simp
    next
      assume "cr = row"
      then have "cr_node_id cr = uuid_str (next_uuid w1)" by (simp add: w3(8) n(2))
      moreover from k1 have "next_uuid w1 \<noteq> k" by simp
      ultimately show ?thesis using uuid_str_inj by auto
    qed
  qed
  moreover have "distinct (map u_node_id (user_nodes w4))"
    using f3 by (simp add: w4(4) w3(6) n(4))
  moreover from w4(3) have "\<forall>cl \<in> set (claim_nodes_db w4). \<forall>k \<ge> next_uuid w4. cl_node_id cl \<noteq> uuid_str k"
    by (simp add: one_credential_def)
  ultimately have "fresh_ids w4" by (simp add: fresh_ids_def)
  moreover have "length (credential_nodes w4) = length (credential_nodes w) + 1"
    by (simp add: w4(5) w3(7) n(5) w1(5))
  ultimately show ?thesis using run count by blast
qed

lemma fresh_empty: "fresh_ids empty_world"
  by (simp add: fresh_ids_def empty_world_def)

text \<open>
  Claim C2. In every state of the store, for every credential, user and event,
  \<open>decompose\<close> returns a result, and its \<open>edges_created\<close> is the number of its claim
  nodes; the claim nodes are the extracted pairs without those of the bare key \<open>id\<close>,
  in order, and the store gains at least one SUPPORTS edge for each, exactly one when
  the identifiers of the store are fresh. For the subject of the specification the
  result has the four claim nodes \<open>name\<close>, \<open>email\<close>, \<open>degree.type\<close> and \<open>degree.name\<close>
  and counts four edges, and a store with fresh identifiers gains four SUPPORTS edges.
\<close>

theorem decompose_edges_equal_claims:
  "(\<exists>r w'. decompose fromisoformat vc user_id event_id w = (Inr r, w')
       \<and> edges_created r = length (claim_nodes r)
       \<and> map (\<lambda>c. (attribute c, claim_value c)) (claim_nodes r)
           = filter (\<lambda>(a, v). a \<noteq> ''id'') (extract_claims (vc_credential_subject vc) [])
       \<and> length (supports_edges w) + length (claim_nodes r) \<le> length (supports_edges w')
       \<and> (fresh_ids w \<longrightarrow>
            length (supports_edges w') = length (supports_edges w) + length (claim_nodes r)))
   \<and> (\<exists>r w'. decompose fromisoformat (vc\<lparr>vc_credential_subject := sample_subject\<rparr>)
                user_id event_id w = (Inr r, w')
       \<and> map attribute (claim_nodes r) = [''name'', ''email'', ''degree.type'', ''degree.name'']
       \<and> length (claim_nodes r) = 4
       \<and> edges_created r = 4
       \<and> (fresh_ids w \<longrightarrow> length (supports_edges w') = length (supports_edges w) + 4))"
proof (intro conjI)
  have general: "\<exists>r w'. decompose fromisoformat vc user_id event_id w = (Inr r, w')
       \<and> edges_created r = length (claim_nodes r)
       \<and> map (\<lambda>c. (attribute c, claim_value c)) (claim_nodes r)
           = filter (\<lambda>(a, v). a \<noteq> ''id'') (extract_claims (vc_credential_subject vc) [])
       \<and> length (supports_edges w) + length (claim_nodes r) \<le> length (supports_edges w')
       \<and> (fresh_ids w \<longrightarrow>
            length (supports_edges w') = length (supports_edges w) + length (claim_nodes r))"
    for vc
  proof -
    obtain r w' where r: "decompose fromisoformat vc user_id event_id w = (Inr r, w')"
      "edges_created r = length (claim_nodes r)"
      "map (\<lambda>c. (attribute c, claim_value c)) (claim_nodes r)
         = filter (\<lambda>(a, v). a \<noteq> ''id'') (extract_claims (vc_credential_subject vc) [])"
      "length (supports_edges w) + length (claim_nodes r) \<le> length (supports_edges w')"
      using decompose_ok [of fromisoformat vc user_id event_id w] by blast
    have "length (supports_edges w') = length (supports_edges w) + length (claim_nodes r)"
      if "fresh_ids w"
      using decompose_exact [OF that, of fromisoformat vc user_id event_id] r(1) by auto
    with r show ?thesis by blast
  qed
  show "\<exists>r w'. decompose fromisoformat vc user_id event_id w = (Inr r, w')
       \<and> edges_created r = length (claim_nodes r)
       \<and> map (\<lambda>c. (attribute c, claim_value c)) (claim_nodes r)
           = filter (\<lambda>(a, v). a \<noteq> ''id'') (extract_claims (vc_credential_subject vc) [])
       \<and> length (supports_edges w) + length (claim_nodes r) \<le> length (supports_edges w')
       \<and> (fresh_ids w \<longrightarrow>
            length (supports_edges w') = length (supports_edges w) + length (claim_nodes r))"
    by (rule general)
  obtain r w' where r:
    "decompose fromisoformat (vc\<lparr>vc_credential_subject := sample_subject\<rparr>) user_id event_id w = (Inr r, w')"
    "edges_created r = length (claim_nodes r)"
    "map (\<lambda>c. (attribute c, claim_value c)) (claim_nodes r)
       = filter (\<lambda>(a, v). a \<noteq> ''id'') (extract_claims sample_subject [])"
    "fresh_ids w \<longrightarrow>
       length (supports_edges w') = length (supports_edges w) + length (claim_nodes r)"
    using general [of "vc\<lparr>vc_credential_subject := sample_subject\<rparr>"] by auto
  have "map attribute (claim_nodes r) = map fst (map (\<lambda>c. (attribute c, claim_value c)) (claim_nodes r))"
    by simp
  also have "\<dots> = [''name'', ''email'', ''degree.type'', ''degree.name'']"
    unfolding r(3) sample_extract by simp
  finally have attrs: "map attribute (claim_nodes r) = [''name'', ''email'', ''degree.type'', ''degree.name'']" .
  then have "length (map attribute (claim_nodes r)) = 4" by simp
  then have "length (claim_nodes r) = 4" by simp
  with r(1,2,4) attrs
  show "\<exists>r w'. decompose fromisoformat (vc\<lparr>vc_credential_subject := sample_subject\<rparr>)
                user_id event_id w = (Inr r, w')
       \<and> map attribute (claim_nodes r) = [''name'', ''email'', ''degree.type'', ''degree.name'']
       \<and> length (claim_nodes r) = 4
       \<and> edges_created r = 4
       \<and> (fresh_ids w \<longrightarrow> length (supports_edges w') = length (supports_edges w) + 4)"
    by auto
qed

theorem decompose_edges_equal_claims_witness:
  "\<exists>r w'. decompose sample_parser (default_vc\<lparr>vc_credential_subject := sample_subject\<rparr>)
              ''user-123'' ''event-123'' empty_world = (Inr r, w')
     \<and> map attribute (claim_nodes r) = [''name'', ''email'', ''degree.type'', ''degree.name'']
     \<and> length (claim_nodes r) = 4
     \<and> edges_created r = 4
     \<and> length (supports_edges w') = 4"
  using decompose_edges_equal_claims
    [where fromisoformat = sample_parser and vc = default_vc and user_id = "''user-123''"
       and event_id = "''event-123''" and w = empty_world]
    fresh_empty
  by (auto simp: empty_world_def)

text \<open>What \<open>decompose\<close> writes to the store, row by row.\<close>

lemma supports_link_mono:
  assumes "supports_link w cid clid s" and "credential_nodes w' = credential_nodes w"
    and "claim_nodes_db w' = claim_nodes_db w @ extra"
  shows "supports_link w' cid clid s"
  using assms by (auto simp: supports_link_def)

lemma fold_add_supports_store:
  "user_nodes (snd (fold (add_supports t) ps acc)) = user_nodes (snd acc)
   \<and> credential_nodes (snd (fold (add_supports t) ps acc)) = credential_nodes (snd acc)
   \<and> claim_nodes_db (snd (fold (add_supports t) ps acc)) = claim_nodes_db (snd acc)
   \<and> length (fst (fold (add_supports t) ps acc)) = length (fst acc) + length ps
   \<and> (\<exists>added. supports_edges (snd (fold (add_supports t) ps acc)) = supports_edges (snd acc) @ added
         \<and> map (\<lambda>s. (s_source s, s_target s)) added = map (\<lambda>p. (cr_nid (fst p), cl_nid (snd p))) ps)"
proof (induction ps arbitrary: acc)
  case Nil
  show ?case by simp
next
  case (Cons p ps)
  obtain ids w where acc: "acc = (ids, w)" by (cases acc)
  let ?acc1 = "add_supports t p acc"
  obtain x where x: "supports_edges (snd ?acc1) = supports_edges (snd acc) @ [x]"
    "s_source x = cr_nid (fst p)" "s_target x = cl_nid (snd p)"
    by (simp add: acc add_supports_def)
  have s1: "user_nodes (snd ?acc1) = user_nodes (snd acc)"
    "credential_nodes (snd ?acc1) = credential_nodes (snd acc)"
    "claim_nodes_db (snd ?acc1) = claim_nodes_db (snd acc)"
    "length (fst ?acc1) = length (fst acc) + 1"
    by (simp_all add: acc add_supports_def)
  from Cons [of ?acc1] obtain added where ih:
    "user_nodes (snd (fold (add_supports t) ps ?acc1)) = user_nodes (snd ?acc1)"
    "credential_nodes (snd (fold (add_supports t) ps ?acc1)) = credential_nodes (snd ?acc1)"
    "claim_nodes_db (snd (fold (add_supports t) ps ?acc1)) = claim_nodes_db (snd ?acc1)"
    "length (fst (fold (add_supports t) ps ?acc1)) = length (fst ?acc1) + length ps"
    "supports_edges (snd (fold (add_supports t) ps ?acc1)) = supports_edges (snd ?acc1) @ added"
    "map (\<lambda>s. (s_source s, s_target s)) added = map (\<lambda>p. (cr_nid (fst p), cl_nid (snd p))) ps"
    by blast
  have "supports_edges (snd (fold (add_supports t) (p # ps) acc)) = supports_edges (snd acc) @ (x # added)"
    using ih(5) x(1) by simp
  moreover have "map (\<lambda>s. (s_source s, s_target s)) (x # added)
      = map (\<lambda>p. (cr_nid (fst p), cl_nid (snd p))) (p # ps)"
    using ih(6) x(2,3) by simp
  ultimately show ?case using ih(1-4) s1 by simp
qed

lemma create_supports_edge_store:
  assumes "cr \<in> set (credential_nodes w)" "cr_node_id cr = cid"
    and "cl \<in> set (claim_nodes_db w)" "cl_node_id cl = clid"
  shows "\<exists>e w' added. create_supports_edge cid clid w = (Inr e, w')
      \<and> credential_nodes w' = credential_nodes w
      \<and> claim_nodes_db w' = claim_nodes_db w
      \<and> supports_edges w' = supports_edges w @ added
      \<and> (\<exists>s \<in> set added. supports_link w cid clid s)"
proof -
  let ?crs = "filter (\<lambda>cr. cr_node_id cr = cid) (credential_nodes w)"
  let ?cls = "filter (\<lambda>cl. cl_node_id cl = clid) (claim_nodes_db w)"
  let ?ps = "List.product ?crs ?cls"
  let ?r = "fold (add_supports (DateTime (now w))) ?ps ([], w\<lparr>now := now w + 1\<rparr>)"
  from assms have mem: "(cr, cl) \<in> set ?ps" by simp
  from fold_add_supports_store [of "DateTime (now w)" ?ps "([], w\<lparr>now := now w + 1\<rparr>)"]
  obtain added where r: "credential_nodes (snd ?r) = credential_nodes w"
    "claim_nodes_db (snd ?r) = claim_nodes_db w"
    "length (fst ?r) = length ?ps"
    "supports_edges (snd ?r) = supports_edges w @ added"
    "map (\<lambda>s. (s_source s, s_target s)) added = map (\<lambda>p. (cr_nid (fst p), cl_nid (snd p))) ?ps"
    by auto
  from mem have "(cr_nid cr, cl_nid cl) \<in> set (map (\<lambda>p. (cr_nid (fst p), cl_nid (snd p))) ?ps)"
    by force
  with r(5) have "(cr_nid cr, cl_nid cl) \<in> set (map (\<lambda>s. (s_source s, s_target s)) added)" by simp
  then obtain s where s: "s \<in> set added" "s_source s = cr_nid cr" "s_target s = cl_nid cl" by auto
  with assms have link: "\<exists>s \<in> set added. supports_link w cid clid s"
    by (auto simp: supports_link_def)
  from mem have "0 < length ?ps" by (rule length_pos_if_in_set)
  with r(3) have "fst ?r \<noteq> []" by auto
  then obtain e es where "fst ?r = e # es" by (cases "fst ?r") auto
  then have "create_supports_edge cid clid w = (Inr e, snd ?r)"
    by (auto simp: create_supports_edge_def Let_def single_Cons split: prod.splits)
  with r(1,2,4) link show ?thesis by blast
qed

lemma decompose_claim_store:
  assumes "\<exists>cr \<in> set (credential_nodes w). cr_node_id cr = cid"
  shows "\<exists>n w' row added. decompose_claim cid attr v w = (Inr n, w')
      \<and> attribute n = attr \<and> claim_value n = v \<and> confidence n = 1
      \<and> credential_nodes w' = credential_nodes w
      \<and> claim_nodes_db w' = claim_nodes_db w @ [row] \<and> stored_as n row
      \<and> supports_edges w' = supports_edges w @ added
      \<and> (\<exists>s \<in> set added. supports_link w' cid (node_id n) s)"
proof -
  obtain n w1 where n: "new_claim_node attr v w = (Inr n, w1)"
    "attribute n = attr" "claim_value n = v" "confidence n = 1"
    "credential_nodes w1 = credential_nodes w" "supports_edges w1 = supports_edges w"
    "claim_nodes_db w1 = claim_nodes_db w"
    by (simp add: new_claim_node_def seq_def uuid4_def utcnow_def ok_def ClaimNode_init_def)
  obtain w2 row where w2: "create_claim_node n w1 = (Inr (node_id n), w2)"
    "credential_nodes w2 = credential_nodes w1" "supports_edges w2 = supports_edges w1"
    "claim_nodes_db w2 = claim_nodes_db w1 @ [row]" "stored_as n row"
    by (simp add: create_claim_node_def single_Cons stored_as_def)
  from assms n(5) w2(2) obtain cr where cr: "cr \<in> set (credential_nodes w2)" "cr_node_id cr = cid"
    by auto
  have row: "row \<in> set (claim_nodes_db w2)" "cl_node_id row = node_id n"
    using w2(4,5) by (simp_all add: stored_as_def)
  from create_supports_edge_store [OF cr row]
  obtain e w3 added where w3: "create_supports_edge cid (node_id n) w2 = (Inr e, w3)"
    "credential_nodes w3 = credential_nodes w2" "claim_nodes_db w3 = claim_nodes_db w2"
    "supports_edges w3 = supports_edges w2 @ added"
    "\<exists>s \<in> set added. supports_link w2 cid (node_id n) s" by blast
  from w3(5) w3(2,3) have link: "\<exists>s \<in> set added. supports_link w3 cid (node_id n) s"
    by (auto simp: supports_link_def)
  have "decompose_claim cid attr v w = (Inr n, w3)"
    by (simp add: decompose_claim_def seq_def n(1) w2(1) w3(1) ok_def)
  moreover have "claim_nodes_db w3 = claim_nodes_db w @ [row]" by (simp add: w3(3) w2(4) n(7))
  moreover have "supports_edges w3 = supports_edges w @ added" by (simp add: w3(4) w2(3) n(6))
  moreover have "credential_nodes w3 = credential_nodes w" by (simp add: w3(2) w2(2) n(5))
  ultimately show ?thesis using n(2,3,4) w2(5) link by blast
qed

lemma decompose_claims_store:
  assumes "\<exists>cr \<in> set (credential_nodes w). cr_node_id cr = cid"
  shows "\<exists>ns w' rows added. decompose_claims cid claims acc k w = (Inr (acc @ ns, k + length ns), w')
      \<and> map (\<lambda>c. (attribute c, claim_value c)) ns = filter (\<lambda>(a, v). a \<noteq> ''id'') claims
      \<and> credential_nodes w' = credential_nodes w
      \<and> claim_nodes_db w' = claim_nodes_db w @ rows \<and> list_all2 stored_as ns rows
      \<and> supports_edges w' = supports_edges w @ added
      \<and> list_all (\<lambda>c. \<exists>s \<in> set added. supports_link w' cid (node_id c) s) ns"
  using assms
proof (induction claims arbitrary: acc k w)
  case Nil
  then show ?case by simp
next
  case (Cons p claims)
  obtain attr v where p: "p = (attr, v)" by (cases p)
  show ?case
  proof (cases "attr = ''id''")
    case True
    with Cons.IH [OF Cons.prems, of acc k] p show ?thesis by simp
  next
    case False
    from decompose_claim_store [OF Cons.prems, of attr v]
    obtain n w1 row added1 where n: "decompose_claim cid attr v w = (Inr n, w1)"
      "attribute n = attr" "claim_value n = v"
      "credential_nodes w1 = credential_nodes w"
      "claim_nodes_db w1 = claim_nodes_db w @ [row]" "stored_as n row"
      "supports_edges w1 = supports_edges w @ added1"
      "\<exists>s \<in> set added1. supports_link w1 cid (node_id n) s" by blast
    from Cons.prems n(4) have "\<exists>cr \<in> set (credential_nodes w1). cr_node_id cr = cid" by simp
    from Cons.IH [OF this, of "acc @ [n]" "k + 1"]
    obtain ns w' rows added2 where r: "decompose_claims cid claims (acc @ [n]) (k + 1) w1
          = (Inr ((acc @ [n]) @ ns, k + 1 + length ns), w')"
      "map (\<lambda>c. (attribute c, claim_value c)) ns = filter (\<lambda>(a, v). a \<noteq> ''id'') claims"
      "credential_nodes w' = credential_nodes w1"
      "claim_nodes_db w' = claim_nodes_db w1 @ rows" "list_all2 stored_as ns rows"
      "supports_edges w' = supports_edges w1 @ added2"
      "list_all (\<lambda>c. \<exists>s \<in> set added2. supports_link w' cid (node_id c) s) ns" by blast
    have run: "decompose_claims cid (p # claims) acc k w = (Inr (acc @ (n # ns), k + length (n # ns)), w')"
      using False p n(1) r(1) by simp
    have m: "map (\<lambda>c. (attribute c, claim_value c)) (n # ns)
        = filter (\<lambda>(a, v). a \<noteq> ''id'') (p # claims)"
      using False p n(2,3) r(2) by simp
    have c: "credential_nodes w' = credential_nodes w" using n(4) r(3) by simp
    have d: "claim_nodes_db w' = claim_nodes_db w @ (row # rows)" using n(5) r(4) by simp
    have l2: "list_all2 stored_as (n # ns) (row # rows)" using n(6) r(5) by simp
    have e: "supports_edges w' = supports_edges w @ (added1 @ added2)" using n(7) r(6) by simp
    from n(8) obtain s where s: "s \<in> set added1" "supports_link w1 cid (node_id n) s" by blast
    from supports_link_mono [OF s(2) r(3) r(4)] s(1)
    have "\<exists>s \<in> set (added1 @ added2). supports_link w' cid (node_id n) s" by auto
    moreover from r(7)
    have "list_all (\<lambda>c. \<exists>s \<in> set (added1 @ added2). supports_link w' cid (node_id c) s) ns"
      by (auto simp: list_all_iff)
    ultimately have la: "list_all (\<lambda>c. \<exists>s \<in> set (added1 @ added2). supports_link w' cid (node_id c) s) (n # ns)"
      by simp
    from run m c d l2 e la show ?thesis by blast
  qed
qed

lemma fold_add_credential_store:
  "claim_nodes_db (fold (add_credential c) us w) = claim_nodes_db w
   \<and> supports_edges (fold (add_credential c) us w) = supports_edges w
   \<and> (\<exists>crs. credential_nodes (fold (add_credential c) us w) = credential_nodes w @ crs
        \<and> length crs = length us
        \<and> list_all (\<lambda>cr. cr_node_id cr = node_id c \<and> cr_issuance_date cr = issuance_date c) crs)"
proof (induction us arbitrary: w)
  case Nil
  show ?case by simp
next
  case (Cons u us)
  let ?w1 = "add_credential c u w"
  obtain x where x: "credential_nodes ?w1 = credential_nodes w @ [x]"
    "cr_node_id x = node_id c" "cr_issuance_date x = issuance_date c"
    "claim_nodes_db ?w1 = claim_nodes_db w" "supports_edges ?w1 = supports_edges w"
    by (simp add: add_credential_def)
  from Cons [of ?w1] obtain crs where ih:
    "claim_nodes_db (fold (add_credential c) us ?w1) = claim_nodes_db ?w1"
    "supports_edges (fold (add_credential c) us ?w1) = supports_edges ?w1"
    "credential_nodes (fold (add_credential c) us ?w1) = credential_nodes ?w1 @ crs"
    "length crs = length us"
    "list_all (\<lambda>cr. cr_node_id cr = node_id c \<and> cr_issuance_date cr = issuance_date c) crs"
    by blast
  have "credential_nodes (fold (add_credential c) (u # us) w) = credential_nodes w @ (x # crs)"
    using ih(3) x(1) by simp
  moreover have "length (x # crs) = length (u # us)" using ih(4) by simp
  moreover have "list_all (\<lambda>cr. cr_node_id cr = node_id c \<and> cr_issuance_date cr = issuance_date c) (x # crs)"
    using ih(5) x(2,3) by simp
  moreover have "claim_nodes_db (fold (add_credential c) (u # us) w) = claim_nodes_db w"
    "supports_edges (fold (add_credential c) (u # us) w) = supports_edges w"
    using ih(1,2) x(4,5) by simp_all
  ultimately show ?case by blast
qed

lemma create_credential_node_store:
  assumes "\<exists>u \<in> set (user_nodes w). u_node_id u = user_id"
  shows "\<exists>w' crs. create_credential_node c user_id w = (Inr (node_id c), w')
      \<and> credential_nodes w' = credential_nodes w @ crs \<and> crs \<noteq> []
      \<and> list_all (\<lambda>cr. cr_node_id cr = node_id c \<and> cr_issuance_date cr = issuance_date c) crs
      \<and> claim_nodes_db w' = claim_nodes_db w
      \<and> supports_edges w' = supports_edges w"
proof -
  let ?m = "filter (\<lambda>u. u_node_id u = user_id) (user_nodes w)"
  from assms have ne: "?m \<noteq> []" by (auto simp: filter_empty_conv)
  then have run: "create_credential_node c user_id w = (Inr (node_id c), fold (add_credential c) ?m w)"
    by (cases ?m) (simp_all add: create_credential_node_def Let_def single_Cons)
  from fold_add_credential_store [of c ?m w] obtain crs where
    "claim_nodes_db (fold (add_credential c) ?m w) = claim_nodes_db w"
    "supports_edges (fold (add_credential c) ?m w) = supports_edges w"
    "credential_nodes (fold (add_credential c) ?m w) = credential_nodes w @ crs"
    "length crs = length ?m"
    "list_all (\<lambda>cr. cr_node_id cr = node_id c \<and> cr_issuance_date cr = issuance_date c) crs"
    by blast
  moreover from this(4) ne have "crs \<noteq> []" by auto
  ultimately show ?thesis using run by blast
qed

lemma create_user_node_store:
  "\<exists>w'. create_user_node user_id w = (Inr user_id, w')
        \<and> (\<exists>u \<in> set (user_nodes w'). u_node_id u = user_id)
        \<and> credential_nodes w' = credential_nodes w
        \<and> claim_nodes_db w' = claim_nodes_db w
        \<and> supports_edges w' = supports_edges w"
proof (cases "filter (\<lambda>u. u_node_id u = user_id) (user_nodes w)")
  case Nil
  then show ?thesis
    by (simp add: create_user_node_def single_Cons)
next
  case (Cons m ms)
  then have "m \<in> set (filter (\<lambda>u. u_node_id u = user_id) (user_nodes w))" by simp
  then have "m \<in> set (user_nodes w)" and "u_node_id m = user_id" by simp_all
  with Cons show ?thesis
    by (auto simp: create_user_node_def single_Cons)
qed

lemma decompose_store:
  "\<exists>r w' crs rows added. decompose fromisoformat vc user_id event_id w = (Inr r, w')
     \<and> edges_created r = length (claim_nodes r)
     \<and> map (\<lambda>c. (attribute c, claim_value c)) (claim_nodes r)
         = filter (\<lambda>(a, v). a \<noteq> ''id'') (extract_claims (vc_credential_subject vc) [])
     \<and> issuance_date (credential_node r) = parse_issuance_date fromisoformat vc
     \<and> credential_nodes w' = credential_nodes w @ crs \<and> crs \<noteq> []
     \<and> list_all (\<lambda>cr. cr_node_id cr = node_id (credential_node r)
                    \<and> cr_issuance_date cr = parse_issuance_date fromisoformat vc) crs
     \<and> claim_nodes_db w' = claim_nodes_db w @ rows
     \<and> list_all2 stored_as (claim_nodes r) rows
     \<and> supports_edges w' = supports_edges w @ added
     \<and> list_all (\<lambda>c. \<exists>s \<in> set added.
           supports_link w' (node_id (credential_node r)) (node_id c) s) (claim_nodes r)"
proof -
  obtain w1 where w1: "create_user_node user_id w = (Inr user_id, w1)"
    "\<exists>u \<in> set (user_nodes w1). u_node_id u = user_id"
    "credential_nodes w1 = credential_nodes w" "claim_nodes_db w1 = claim_nodes_db w"
    "supports_edges w1 = supports_edges w"
    using create_user_node_store by blast
  obtain n w2 where n: "new_credential_node vc event_id (parse_issuance_date fromisoformat vc) w1 = (Inr n, w2)"
    "issuance_date n = parse_issuance_date fromisoformat vc"
    "user_nodes w2 = user_nodes w1" "credential_nodes w2 = credential_nodes w1"
    "claim_nodes_db w2 = claim_nodes_db w1" "supports_edges w2 = supports_edges w1"
    by (simp add: new_credential_node_def seq_def uuid4_def utcnow_def ok_def
        CredentialNode_init_def Let_def)
  from w1(2) n(3) have "\<exists>u \<in> set (user_nodes w2). u_node_id u = user_id" by simp
  from create_credential_node_store [OF this, of n]
  obtain w3 crs where w3: "create_credential_node n user_id w2 = (Inr (node_id n), w3)"
    "credential_nodes w3 = credential_nodes w2 @ crs" "crs \<noteq> []"
    "list_all (\<lambda>cr. cr_node_id cr = node_id n \<and> cr_issuance_date cr = issuance_date n) crs"
    "claim_nodes_db w3 = claim_nodes_db w2" "supports_edges w3 = supports_edges w2"
    by blast
  from w3(2,3,4) have "\<exists>cr \<in> set (credential_nodes w3). cr_node_id cr = node_id n"
    by (cases crs) auto
  from decompose_claims_store [OF this, of "extract_claims (vc_credential_subject vc) []" "[]" 0]
  obtain ns w4 rows added where w4:
    "decompose_claims (node_id n) (extract_claims (vc_credential_subject vc) []) [] 0 w3
       = (Inr (ns, length ns), w4)"
    "map (\<lambda>c. (attribute c, claim_value c)) ns
       = filter (\<lambda>(a, v). a \<noteq> ''id'') (extract_claims (vc_credential_subject vc) [])"
    "credential_nodes w4 = credential_nodes w3"
    "claim_nodes_db w4 = claim_nodes_db w3 @ rows" "list_all2 stored_as ns rows"
    "supports_edges w4 = supports_edges w3 @ added"
    "list_all (\<lambda>c. \<exists>s \<in> set added. supports_link w4 (node_id n) (node_id c) s) ns" by auto
  let ?r = "\<lparr>credential_node = n, claim_nodes = ns, fragment_node = None,
             edges_created = length ns, conflicts_detected = 0\<rparr>"
  have run: "decompose fromisoformat vc user_id event_id w = (Inr ?r, w4)"
    by (simp add: decompose_def seq_def w1(1) n(1) w3(1) w4(1) ok_def)
  have a: "credential_nodes w4 = credential_nodes w @ crs" by (simp add: w4(3) w3(2) n(4) w1(3))
  have b: "claim_nodes_db w4 = claim_nodes_db w @ rows" by (simp add: w4(4) w3(5) n(5) w1(4))
  have c: "supports_edges w4 = supports_edges w @ added" by (simp add: w4(6) w3(6) n(6) w1(5))
  have d: "list_all (\<lambda>cr. cr_node_id cr = node_id n
                    \<and> cr_issuance_date cr = parse_issuance_date fromisoformat vc) crs"
    using w3(4) n(2) by simp
  show ?thesis
    using run w4(2,5,7) n(2) a b c d w3(3)
    by (intro exI [of _ ?r] exI [of _ w4] exI [of _ crs] exI [of _ rows] exI [of _ added]) simp
qed

text \<open>
  Claim C7. For a credential with an issuance date string, \<open>decompose\<close> returns a
  result whose date is what the parser gives for the string with \<open>Z\<close> replaced by
  \<open>+00:00\<close> (a trailing \<open>Z\<close> becomes the UTC offset). When the parser rejects the
  string, \<open>decompose\<close> still returns a result, and it has created the Credential node
  and all the claims in the store: the Credential nodes added to the store are
  those of the result's \<open>node_id\<close>, at least one, each with no issuance date; the
  result's claims are the extracted pairs other than \<open>id\<close>; the Claim nodes added to
  the store are exactly those claims, one row each and in their order, with the
  string of the value; and every claim has, among the SUPPORTS relationships added, one
  from a Credential node of the result's \<open>node_id\<close> to its own Claim node. In a store
  whose identifiers are fresh, exactly one Credential node and one relationship for
  each claim are added.
\<close>

theorem decompose_unparseable_issuance_date:
  "(\<exists>r w'. decompose fromisoformat (vc\<lparr>vc_issuance_date := Some s\<rparr>) user_id event_id w = (Inr r, w')
      \<and> issuance_date (credential_node r)
          = (if s \<noteq> [] then fromisoformat (str_replace CHR ''Z'' ''+00:00'' s) else None))
   \<and> str_replace CHR ''Z'' ''+00:00'' (t @ ''Z'') = str_replace CHR ''Z'' ''+00:00'' t @ ''+00:00''
   \<and> (fromisoformat (str_replace CHR ''Z'' ''+00:00'' s) = None \<longrightarrow>
        (\<exists>r w' crs rows added.
           decompose fromisoformat (vc\<lparr>vc_issuance_date := Some s\<rparr>) user_id event_id w
             = (Inr r, w')
           \<and> issuance_date (credential_node r) = None
           \<and> credential_nodes w' = credential_nodes w @ crs
           \<and> crs \<noteq> []
           \<and> list_all (\<lambda>cr. cr_node_id cr = node_id (credential_node r)
                          \<and> cr_issuance_date cr = None) crs
           \<and> (\<exists>cr \<in> set (credential_nodes w').
                 cr_node_id cr = node_id (credential_node r) \<and> cr_issuance_date cr = None)
           \<and> map (\<lambda>c. (attribute c, claim_value c)) (claim_nodes r)
               = filter (\<lambda>(a, v). a \<noteq> ''id'') (extract_claims (vc_credential_subject vc) [])
           \<and> claim_nodes_db w' = claim_nodes_db w @ rows
           \<and> list_all2 stored_as (claim_nodes r) rows
           \<and> supports_edges w' = supports_edges w @ added
           \<and> list_all (\<lambda>c. \<exists>e \<in> set added.
                 supports_link w' (node_id (credential_node r)) (node_id c) e) (claim_nodes r)
           \<and> edges_created r = length (claim_nodes r)
           \<and> (fresh_ids w \<longrightarrow> length crs = 1 \<and> length added = length (claim_nodes r))))"
proof (intro conjI impI)
  let ?vc = "vc\<lparr>vc_issuance_date := Some s\<rparr>"
  have p: "parse_issuance_date fromisoformat ?vc
      = (if s \<noteq> [] then fromisoformat (str_replace CHR ''Z'' ''+00:00'' s) else None)"
    by (simp add: parse_issuance_date_def)
  show "\<exists>r w'. decompose fromisoformat ?vc user_id event_id w = (Inr r, w')
      \<and> issuance_date (credential_node r)
          = (if s \<noteq> [] then fromisoformat (str_replace CHR ''Z'' ''+00:00'' s) else None)"
    using decompose_ok [of fromisoformat ?vc user_id event_id w] unfolding p by blast
  show "str_replace CHR ''Z'' ''+00:00'' (t @ ''Z'') = str_replace CHR ''Z'' ''+00:00'' t @ ''+00:00''"
    by (simp add: str_replace_def)
  assume "fromisoformat (str_replace CHR ''Z'' ''+00:00'' s) = None"
  with p have none: "parse_issuance_date fromisoformat ?vc = None" by simp
  from decompose_store [of fromisoformat ?vc user_id event_id w]
  obtain r w' crs rows added where d:
    "decompose fromisoformat ?vc user_id event_id w = (Inr r, w')"
    "edges_created r = length (claim_nodes r)"
    "map (\<lambda>c. (attribute c, claim_value c)) (claim_nodes r)
       = filter (\<lambda>(a, v). a \<noteq> ''id'') (extract_claims (vc_credential_subject vc) [])"
    "issuance_date (credential_node r) = None"
    "credential_nodes w' = credential_nodes w @ crs" "crs \<noteq> []"
    "list_all (\<lambda>cr. cr_node_id cr = node_id (credential_node r) \<and> cr_issuance_date cr = None) crs"
    "claim_nodes_db w' = claim_nodes_db w @ rows"
    "list_all2 stored_as (claim_nodes r) rows"
    "supports_edges w' = supports_edges w @ added"
    "list_all (\<lambda>c. \<exists>e \<in> set added.
        supports_link w' (node_id (credential_node r)) (node_id c) e) (claim_nodes r)"
    unfolding none by auto
  from d(5,6,7) have stored: "\<exists>cr \<in> set (credential_nodes w').
      cr_node_id cr = node_id (credential_node r) \<and> cr_issuance_date cr = None"
    by (cases crs) auto
  have exact: "length crs = 1 \<and> length added = length (claim_nodes r)" if "fresh_ids w"
  proof -
    from decompose_exact [OF that, of fromisoformat ?vc user_id event_id] d(1)
    have "length (supports_edges w') = length (supports_edges w) + length (claim_nodes r)"
      and "length (credential_nodes w') = length (credential_nodes w) + 1"
      by auto
    with d(5,10) show ?thesis by simp
  qed
  show "\<exists>r w' crs rows added.
           decompose fromisoformat ?vc user_id event_id w = (Inr r, w')
           \<and> issuance_date (credential_node r) = None
           \<and> credential_nodes w' = credential_nodes w @ crs
           \<and> crs \<noteq> []
           \<and> list_all (\<lambda>cr. cr_node_id cr = node_id (credential_node r)
                          \<and> cr_issuance_date cr = None) crs
           \<and> (\<exists>cr \<in> set (credential_nodes w').
                 cr_node_id cr = node_id (credential_node r) \<and> cr_issuance_date cr = None)
           \<and> map (\<lambda>c. (attribute c, claim_value c)) (claim_nodes r)
               = filter (\<lambda>(a, v). a \<noteq> ''id'') (extract_claims (vc_credential_subject vc) [])
           \<and> claim_nodes_db w' = claim_nodes_db w @ rows
           \<and> list_all2 stored_as (claim_nodes r) rows
           \<and> supports_edges w' = supports_edges w @ added
           \<and> list_all (\<lambda>c. \<exists>e \<in> set added.
                 supports_link w' (node_id (credential_node r)) (node_id c) e) (claim_nodes r)
           \<and> edges_created r = length (claim_nodes r)
           \<and> (fresh_ids w \<longrightarrow> length crs = 1 \<and> length added = length (claim_nodes r))"
    using d stored exact
    by (intro exI [of _ r] exI [of _ w'] exI [of _ crs] exI [of _ rows] exI [of _ added]) simp
qed

theorem decompose_unparseable_issuance_date_witness:
  "\<exists>r w'. decompose sample_parser bad_date_vc ''user-123'' ''event-123'' empty_world = (Inr r, w')
     \<and> issuance_date (credential_node r) = None
     \<and> map (\<lambda>cr. (cr_node_id cr, cr_issuance_date cr)) (credential_nodes w')
         = [(node_id (credential_node r), None)]
     \<and> map attribute (claim_nodes r) = [''name'', ''email'', ''degree.type'', ''degree.name'']
     \<and> map (\<lambda>cl. (cl_node_id cl, cl_attribute cl, cl_value cl)) (claim_nodes_db w')
         = map (\<lambda>c. (node_id c, attribute c, Some (py_str (claim_value c)))) (claim_nodes r)
     \<and> map (\<lambda>cl. (cl_attribute cl, cl_value cl)) (claim_nodes_db w')
         = [(''name'', Some ''John Doe''), (''email'', Some ''j@x.com''),
            (''degree.type'', Some ''BS''), (''degree.name'', Some ''CS'')]
     \<and> map (\<lambda>e. (s_source e, s_target e)) (supports_edges w') = [(1, 2), (1, 3), (1, 4), (1, 5)]
     \<and> edges_created r = 4"
proof -
  let ?run = "decompose sample_parser bad_date_vc ''user-123'' ''event-123'' empty_world"
  have rejected: "sample_parser (str_replace CHR ''Z'' ''+00:00'' ''15 January 2024'') = None"
    by (simp add: sample_parser_def str_replace_def)
  have vc: "(default_vc\<lparr>vc_credential_subject := sample_subject\<rparr>)
      \<lparr>vc_issuance_date := Some ''15 January 2024''\<rparr> = bad_date_vc"
    by (simp add: bad_date_vc_def)
  from decompose_unparseable_issuance_date
    [where fromisoformat = sample_parser
       and vc = "default_vc\<lparr>vc_credential_subject := sample_subject\<rparr>"
       and s = "''15 January 2024''"
       and user_id = "''user-123''" and event_id = "''event-123''" and w = empty_world,
     THEN conjunct2, THEN conjunct2, THEN mp, OF rejected]
  obtain r w' where r: "?run = (Inr r, w')"
    "issuance_date (credential_node r) = None"
    "edges_created r = length (claim_nodes r)"
    unfolding vc by auto
  from r(1) have proj: "fst ?run = Inr r" "snd ?run = w'" by simp_all
  have a: "map attribute (result_claims (fst ?run)) = [''name'', ''email'', ''degree.type'', ''degree.name'']"
    by code_simp
  have b: "map (\<lambda>cr. (cr_node_id cr, cr_issuance_date cr)) (credential_nodes (snd ?run))
         = map (\<lambda>r. (node_id (credential_node r), None)) (case fst ?run of Inr r \<Rightarrow> [r] | Inl e \<Rightarrow> [])"
    by code_simp
  have c: "map (\<lambda>cl. (cl_node_id cl, cl_attribute cl, cl_value cl)) (claim_nodes_db (snd ?run))
         = map (\<lambda>c. (node_id c, attribute c, Some (py_str (claim_value c)))) (result_claims (fst ?run))"
    by code_simp
  have d: "map (\<lambda>cl. (cl_attribute cl, cl_value cl)) (claim_nodes_db (snd ?run))
         = [(''name'', Some ''John Doe''), (''email'', Some ''j@x.com''),
            (''degree.type'', Some ''BS''), (''degree.name'', Some ''CS'')]"
    by code_simp
  have e: "map (\<lambda>e. (s_source e, s_target e)) (supports_edges (snd ?run)) = [(1, 2), (1, 3), (1, 4), (1, 5)]"
    by code_simp
  from a have a': "map attribute (claim_nodes r) = [''name'', ''email'', ''degree.type'', ''degree.name'']"
    by (simp add: proj result_claims_def)
  then have "length (map attribute (claim_nodes r)) = 4" by simp
  with r(3) have n4: "edges_created r = 4" by simp
  from b c d e have
    "map (\<lambda>cr. (cr_node_id cr, cr_issuance_date cr)) (credential_nodes w')
       = [(node_id (credential_node r), None)]"
    "map (\<lambda>cl. (cl_node_id cl, cl_attribute cl, cl_value cl)) (claim_nodes_db w')
       = map (\<lambda>c. (node_id c, attribute c, Some (py_str (claim_value c)))) (claim_nodes r)"
    "map (\<lambda>cl. (cl_attribute cl, cl_value cl)) (claim_nodes_db w')
         = [(''name'', Some ''John Doe''), (''email'', Some ''j@x.com''),
            (''degree.type'', Some ''BS''), (''degree.name'', Some ''CS'')]"
    "map (\<lambda>e. (s_source e, s_target e)) (supports_edges w') = [(1, 2), (1, 3), (1, 4), (1, 5)]"
    by (simp_all add: proj result_claims_def)
  with r(1,2) a' n4 show ?thesis
    by (intro exI [of _ r] exI [of _ w']) simp
qed

section \<open>Properties of the conflict detector\<close>

text \<open>
  Claim C9. \<open>resolve_conflict\<close> returns \<open>True\<close> and leaves the state as it was.
\<close>

theorem resolve_conflict_noop:
  "resolve_conflict cid preferred_claim_id w = (Inr True, w)"
  by (simp add: resolve_conflict_def ok_def)

lemma fold_add_contradicts:
  assumes "\<forall>p \<in> set ps. fst p \<in> set cls \<and> snd p \<in> set cls \<and> cl_node_id (fst p) \<noteq> cl_node_id (snd p)"
  shows "read_view (snd (fold (add_contradicts t conf) ps acc)) = read_view (snd acc)
     \<and> (\<exists>added. contradicts_edges (snd (fold (add_contradicts t conf) ps acc))
                   = contradicts_edges (snd acc) @ added
              \<and> (\<forall>x \<in> set added. joins_distinct cls x))"
  using assms
proof (induction ps arbitrary: acc)
  case Nil
  then show ?case by simp
next
  case (Cons p ps)
  obtain ids w where acc: "acc = (ids, w)" by (cases acc)
  let ?x = "\<lparr>x_edge_id = uuid_str (next_uuid w), x_confidence = conf, x_created_at = t,
                x_source = cl_nid (fst p), x_target = cl_nid (snd p)\<rparr>"
  let ?acc1 = "add_contradicts t conf p acc"
  have v1: "read_view (snd ?acc1) = read_view (snd acc)"
    by (simp add: acc add_contradicts_def read_view_def)
  have e1: "contradicts_edges (snd ?acc1) = contradicts_edges (snd acc) @ [?x]"
    by (simp add: acc add_contradicts_def)
  from Cons.prems have jx: "joins_distinct cls ?x"
    by (auto simp: joins_distinct_def)
  from Cons.prems have "\<forall>p \<in> set ps. fst p \<in> set cls \<and> snd p \<in> set cls \<and> cl_node_id (fst p) \<noteq> cl_node_id (snd p)"
    by simp
  from Cons.IH [OF this, of ?acc1]
  obtain added where ih: "read_view (snd (fold (add_contradicts t conf) ps ?acc1)) = read_view (snd ?acc1)"
    "contradicts_edges (snd (fold (add_contradicts t conf) ps ?acc1)) = contradicts_edges (snd ?acc1) @ added"
    "\<forall>x \<in> set added. joins_distinct cls x" by blast
  have "contradicts_edges (snd (fold (add_contradicts t conf) (p # ps) acc))
      = contradicts_edges (snd acc) @ (?x # added)"
    using ih(2) e1 by simp
  moreover have "\<forall>x \<in> set (?x # added). joins_distinct cls x" using jx ih(3) by simp
  moreover have "read_view (snd (fold (add_contradicts t conf) (p # ps) acc)) = read_view (snd acc)"
    using ih(1) v1 by simp
  ultimately show ?case by blast
qed

lemma create_contradicts_edge_inv:
  assumes "create_contradicts_edge a_id b_id conf w = (res, w')" and "a_id \<noteq> b_id"
  shows "read_view w' = read_view w
     \<and> (\<exists>added. contradicts_edges w' = contradicts_edges w @ added
              \<and> (\<forall>x \<in> set added. joins_distinct (claim_nodes_db w) x))"
proof -
  let ?ps = "List.product (filter (\<lambda>cl. cl_node_id cl = a_id) (claim_nodes_db w))
            (filter (\<lambda>cl. cl_node_id cl = b_id) (claim_nodes_db w))"
  let ?w0 = "w\<lparr>now := now w + 1\<rparr>"
  let ?r = "fold (add_contradicts (DateTime (now w)) conf) ?ps ([], ?w0)"
  have "\<forall>p \<in> set ?ps. fst p \<in> set (claim_nodes_db w) \<and> snd p \<in> set (claim_nodes_db w)
          \<and> cl_node_id (fst p) \<noteq> cl_node_id (snd p)"
    using assms(2) by auto
  from fold_add_contradicts [OF this, of "DateTime (now w)" conf "([], ?w0)"]
  obtain added where r: "read_view (snd ?r) = read_view ?w0"
    "contradicts_edges (snd ?r) = contradicts_edges ?w0 @ added"
    "\<forall>x \<in> set added. joins_distinct (claim_nodes_db w) x" by auto
  have "w' = snd ?r"
    using assms(1)
    by (auto simp: create_contradicts_edge_def Let_def single_def ok_def raise_def
        split: prod.splits list.splits)
  moreover have "read_view ?w0 = read_view w" by (simp add: read_view_def)
  ultimately show ?thesis using r by auto
qed

lemma record_conflict_inv:
  assumes "record_conflict n e w = (res, w')" and "rec_node_id e \<noteq> node_id n"
  shows "read_view w' = read_view w
     \<and> (\<exists>added. contradicts_edges w' = contradicts_edges w @ added
              \<and> (\<forall>x \<in> set added. joins_distinct (claim_nodes_db w) x))
     \<and> (\<forall>c. res = Inr c \<longrightarrow> claim_a c = n \<and> node_id (claim_b c) = rec_node_id e)"
proof -
  obtain r1 w1 where c: "create_contradicts_edge (node_id n) (rec_node_id e) 1 w = (r1, w1)"
    by (cases "create_contradicts_edge (node_id n) (rec_node_id e) 1 w")
  from assms(2) have "node_id n \<noteq> rec_node_id e" by simp
  from create_contradicts_edge_inv [OF c this]
  obtain added where a: "read_view w1 = read_view w"
    "contradicts_edges w1 = contradicts_edges w @ added"
    "\<forall>x \<in> set added. joins_distinct (claim_nodes_db w) x" by blast
  show ?thesis
  proof (cases r1)
    case (Inl err)
    with assms(1) c have "w' = w1" and "res = Inl err"
      by (simp_all add: record_conflict_def seq_def)
    with a show ?thesis by auto
  next
    case (Inr edge_id)
    with assms(1) c have w': "w' = w1\<lparr>now := now w1 + 1 + 1\<rparr>"
      and res: "\<exists>c. res = Inr c \<and> claim_a c = n \<and> node_id (claim_b c) = rec_node_id e"
      by (auto simp: record_conflict_def seq_def utcnow_def ok_def ClaimNode_init_def)
    from w' a have "read_view w' = read_view w" and "contradicts_edges w' = contradicts_edges w @ added"
      by (simp_all add: read_view_def)
    with a(3) res show ?thesis by auto
  qed
qed

lemma read_view_claims: "read_view w' = read_view w \<Longrightarrow> claim_nodes_db w' = claim_nodes_db w"
  by (simp add: read_view_def)

lemma check_existing_inv:
  assumes "check_existing n existing conflicts w = (res, w')"
  shows "read_view w' = read_view w
     \<and> (\<exists>added. contradicts_edges w' = contradicts_edges w @ added
              \<and> (\<forall>x \<in> set added. joins_distinct (claim_nodes_db w) x))
     \<and> (\<forall>cs. res = Inr cs \<longrightarrow>
          (\<exists>new. cs = conflicts @ new
             \<and> (\<forall>c \<in> set new. node_id (claim_b c) \<noteq> node_id (claim_a c))))"
  using assms
proof (induction existing arbitrary: conflicts w)
  case Nil
  then show ?case by auto
next
  case (Cons e existing)
  show ?case
  proof (cases "rec_node_id e = node_id n")
    case True
    with Cons.prems have "check_existing n existing conflicts w = (res, w')" by simp
    from Cons.IH [OF this] show ?thesis .
  next
    case diff: False
    show ?thesis
    proof (cases "existing_value_of e \<noteq> new_value_of n")
      case False
      with diff Cons.prems have "check_existing n existing conflicts w = (res, w')" by simp
      from Cons.IH [OF this] show ?thesis .
    next
      case True
      obtain r1 w1 where rc: "record_conflict n e w = (r1, w1)"
        by (cases "record_conflict n e w")
      from record_conflict_inv [OF rc diff]
      obtain added1 where a1: "read_view w1 = read_view w"
        "contradicts_edges w1 = contradicts_edges w @ added1"
        "\<forall>x \<in> set added1. joins_distinct (claim_nodes_db w) x"
        "\<forall>c. r1 = Inr c \<longrightarrow> claim_a c = n \<and> node_id (claim_b c) = rec_node_id e" by blast
      show ?thesis
      proof (cases r1)
        case (Inl err)
        with Cons.prems diff True rc have "res = Inl err" and "w' = w1" by simp_all
        with a1 show ?thesis by auto
      next
        case (Inr c)
        with Cons.prems diff True rc
        have rest: "check_existing n existing (conflicts @ [c]) w1 = (res, w')" by simp
        from Cons.IH [OF rest]
        obtain added2 where a2: "read_view w' = read_view w1"
          "contradicts_edges w' = contradicts_edges w1 @ added2"
          "\<forall>x \<in> set added2. joins_distinct (claim_nodes_db w1) x"
          "\<forall>cs. res = Inr cs \<longrightarrow>
            (\<exists>new. cs = (conflicts @ [c]) @ new
               \<and> (\<forall>c \<in> set new. node_id (claim_b c) \<noteq> node_id (claim_a c)))" by blast
        from a1(4) Inr diff have cd: "node_id (claim_b c) \<noteq> node_id (claim_a c)" by simp
        have cl: "claim_nodes_db w1 = claim_nodes_db w" using a1(1) by (rule read_view_claims)
        have "read_view w' = read_view w" using a1(1) a2(1) by simp
        moreover have "contradicts_edges w' = contradicts_edges w @ (added1 @ added2)"
          using a1(2) a2(2) by simp
        moreover have "\<forall>x \<in> set (added1 @ added2). joins_distinct (claim_nodes_db w) x"
          using a1(3) a2(3) cl by auto
        moreover have "\<forall>cs. res = Inr cs \<longrightarrow>
          (\<exists>new. cs = conflicts @ new
             \<and> (\<forall>c \<in> set new. node_id (claim_b c) \<noteq> node_id (claim_a c)))"
        proof (intro allI impI)
          fix cs assume "res = Inr cs"
          with a2(4) obtain new where "cs = (conflicts @ [c]) @ new"
            "\<forall>c \<in> set new. node_id (claim_b c) \<noteq> node_id (claim_a c)" by blast
          with cd have "cs = conflicts @ (c # new)"
            "\<forall>c \<in> set (c # new). node_id (claim_b c) \<noteq> node_id (claim_a c)" by simp_all
          then show "\<exists>new. cs = conflicts @ new
             \<and> (\<forall>c \<in> set new. node_id (claim_b c) \<noteq> node_id (claim_a c))" by blast
        qed
        ultimately show ?thesis by blast
      qed
    qed
  qed
qed

lemma detect_loop_inv:
  assumes "detect_loop user_id new_claims conflicts w = (res, w')"
  shows "read_view w' = read_view w
     \<and> (\<exists>added. contradicts_edges w' = contradicts_edges w @ added
              \<and> (\<forall>x \<in> set added. joins_distinct (claim_nodes_db w) x))
     \<and> (\<forall>cs. res = Inr cs \<longrightarrow>
          (\<exists>new. cs = conflicts @ new
             \<and> (\<forall>c \<in> set new. node_id (claim_b c) \<noteq> node_id (claim_a c))))"
  using assms
proof (induction new_claims arbitrary: conflicts w)
  case Nil
  then show ?case by auto
next
  case (Cons n new_claims)
  obtain r1 w1 where ce: "check_existing n (find_existing_claims w user_id (attribute n)) conflicts w = (r1, w1)"
    by (cases "check_existing n (find_existing_claims w user_id (attribute n)) conflicts w")
  from check_existing_inv [OF ce]
  obtain added1 where a1: "read_view w1 = read_view w"
    "contradicts_edges w1 = contradicts_edges w @ added1"
    "\<forall>x \<in> set added1. joins_distinct (claim_nodes_db w) x"
    "\<forall>cs. r1 = Inr cs \<longrightarrow>
          (\<exists>new. cs = conflicts @ new
             \<and> (\<forall>c \<in> set new. node_id (claim_b c) \<noteq> node_id (claim_a c)))" by blast
  show ?case
  proof (cases r1)
    case (Inl err)
    with Cons.prems ce have "res = Inl err" and "w' = w1" by simp_all
    with a1 show ?thesis by auto
  next
    case (Inr cs1)
    with Cons.prems ce have rest: "detect_loop user_id new_claims cs1 w1 = (res, w')" by simp
    from a1(4) Inr obtain new1 where n1: "cs1 = conflicts @ new1"
      "\<forall>c \<in> set new1. node_id (claim_b c) \<noteq> node_id (claim_a c)" by blast
    from Cons.IH [OF rest]
    obtain added2 where a2: "read_view w' = read_view w1"
      "contradicts_edges w' = contradicts_edges w1 @ added2"
      "\<forall>x \<in> set added2. joins_distinct (claim_nodes_db w1) x"
      "\<forall>cs. res = Inr cs \<longrightarrow>
        (\<exists>new. cs = cs1 @ new
           \<and> (\<forall>c \<in> set new. node_id (claim_b c) \<noteq> node_id (claim_a c)))" by blast
    have cl: "claim_nodes_db w1 = claim_nodes_db w" using a1(1) by (rule read_view_claims)
    have "read_view w' = read_view w" using a1(1) a2(1) by simp
    moreover have "contradicts_edges w' = contradicts_edges w @ (added1 @ added2)"
      using a1(2) a2(2) by simp
    moreover have "\<forall>x \<in> set (added1 @ added2). joins_distinct (claim_nodes_db w) x"
      using a1(3) a2(3) cl by auto
    moreover have "\<forall>cs. res = Inr cs \<longrightarrow>
      (\<exists>new. cs = conflicts @ new
         \<and> (\<forall>c \<in> set new. node_id (claim_b c) \<noteq> node_id (claim_a c)))"
    proof (intro allI impI)
      fix cs assume "res = Inr cs"
      with a2(4) obtain new where "cs = cs1 @ new"
        "\<forall>c \<in> set new. node_id (claim_b c) \<noteq> node_id (claim_a c)" by blast
      with n1 have "cs = conflicts @ (new1 @ new)"
        "\<forall>c \<in> set (new1 @ new). node_id (claim_b c) \<noteq> node_id (claim_a c)" by auto
      then show "\<exists>new. cs = conflicts @ new
         \<and> (\<forall>c \<in> set new. node_id (claim_b c) \<noteq> node_id (claim_a c))" by blast
    qed
    ultimately show ?thesis by blast
  qed
qed

lemma check_existing_all_self:
  "\<forall>e \<in> set existing. rec_node_id e = node_id n \<Longrightarrow>
     check_existing n existing conflicts w = (Inr conflicts, w)"
  by (induction existing) simp_all

lemma detect_loop_all_self:
  "\<forall>n \<in> set new_claims. \<forall>e \<in> set (find_existing_claims w user_id (attribute n)).
      rec_node_id e = node_id n \<Longrightarrow>
     detect_loop user_id new_claims conflicts w = (Inr conflicts, w)"
  by (induction new_claims) (simp_all add: check_existing_all_self)

text \<open>
  Claim C4. In every call of \<open>detect_conflicts\<close>, whatever its outcome: no conflict
  returned pairs a claim with an existing claim of the same identifier; every
  CONTRADICTS edge added to the store joins two Claim nodes with different
  identifiers; and when every existing claim returned for a new claim has the
  identifier of that new claim, whatever the stored values are, the call returns no
  conflict and leaves the state as it was.
\<close>

theorem detect_conflicts_skips_self:
  assumes "detect_conflicts user_id new_claims w = (res, w')"
  shows "(\<forall>c \<in> set (conflicts_of res). node_id (claim_b c) \<noteq> node_id (claim_a c))
     \<and> (\<exists>added. contradicts_edges w' = contradicts_edges w @ added
              \<and> (\<forall>x \<in> set added. joins_distinct (claim_nodes_db w) x))
     \<and> ((\<forall>n \<in> set new_claims. \<forall>e \<in> set (find_existing_claims w user_id (attribute n)).
            rec_node_id e = node_id n)
         \<longrightarrow> res = Inr [] \<and> w' = w)"
proof -
  from assms have run: "detect_loop user_id new_claims [] w = (res, w')"
    by (simp add: detect_conflicts_def)
  from detect_loop_inv [OF run]
  have edges: "\<exists>added. contradicts_edges w' = contradicts_edges w @ added
              \<and> (\<forall>x \<in> set added. joins_distinct (claim_nodes_db w) x)"
    and cs: "\<forall>cs. res = Inr cs \<longrightarrow>
          (\<exists>new. cs = [] @ new \<and> (\<forall>c \<in> set new. node_id (claim_b c) \<noteq> node_id (claim_a c)))"
    by blast+
  have "\<forall>c \<in> set (conflicts_of res). node_id (claim_b c) \<noteq> node_id (claim_a c)"
    using cs by (cases res) (auto simp: conflicts_of_def)
  moreover have "(\<forall>n \<in> set new_claims. \<forall>e \<in> set (find_existing_claims w user_id (attribute n)).
            rec_node_id e = node_id n) \<longrightarrow> res = Inr [] \<and> w' = w"
    using run detect_loop_all_self [of new_claims w user_id "[]"] by auto
  ultimately show ?thesis using edges by blast
qed

text \<open>
  The theorem at two inputs. In the first graph the only existing claim has the
  identifier of the new claim and another value: nothing is recorded. In the second the
  query returns the claim \<open>existing-1\<close> and the new claim itself: one conflict and one
  edge are recorded, between the new claim and \<open>existing-1\<close>.
\<close>

theorem detect_conflicts_skips_self_witness:
  "find_existing_claims self_match_world ''user-123'' ''name''
       = [\<lparr>rec_node_id = ''same-id'', rec_attribute = ''name'', rec_value = Some ''Different''\<rparr>]
   \<and> detect_conflicts ''user-123''
       [ClaimNode_init ''same-id'' (DateTime 9) ''name'' (PStr ''John'') 1] self_match_world
     = (Inr [], self_match_world)
   \<and> map rec_node_id (find_existing_claims jane_world ''user-123'' ''name'')
       = [''existing-1'', ''new-1'']
   \<and> map (\<lambda>c. (conflict_attribute c, node_id (claim_a c), node_id (claim_b c)))
        (conflicts_of (fst (detect_conflicts ''user-123'' [john_claim] jane_world)))
       = [(''name'', ''new-1'', ''existing-1'')]
   \<and> map (\<lambda>x. (x_source x, x_target x, x_confidence x))
        (contradicts_edges (snd (detect_conflicts ''user-123'' [john_claim] jane_world)))
       = [(4, 2, 1)]"
proof -
  let ?n = "ClaimNode_init ''same-id'' (DateTime 9) ''name'' (PStr ''John'') 1"
  let ?run = "detect_conflicts ''user-123'' [?n] self_match_world"
  have found: "find_existing_claims self_match_world ''user-123'' ''name''
       = [\<lparr>rec_node_id = ''same-id'', rec_attribute = ''name'', rec_value = Some ''Different''\<rparr>]"
    by (simp add: find_existing_claims_def self_match_world_def)
  have n: "attribute ?n = ''name''" "node_id ?n = ''same-id''"
    by (simp_all add: ClaimNode_init_def)
  have "?run = (fst ?run, snd ?run)" by simp
  from detect_conflicts_skips_self [OF this]
  have "fst ?run = Inr [] \<and> snd ?run = self_match_world"
    using found n by simp
  then have self: "?run = (Inr [], self_match_world)" by (simp add: prod_eq_iff)
  have jane: "map rec_node_id (find_existing_claims jane_world ''user-123'' ''name'')
       = [''existing-1'', ''new-1'']"
    by (simp add: find_existing_claims_def jane_world_def)
  have conflicts: "map (\<lambda>c. (conflict_attribute c, node_id (claim_a c), node_id (claim_b c)))
        (conflicts_of (fst (detect_conflicts ''user-123'' [john_claim] jane_world)))
       = [(''name'', ''new-1'', ''existing-1'')]"
    by code_simp
  have edges: "map (\<lambda>x. (x_source x, x_target x, x_confidence x))
        (contradicts_edges (snd (detect_conflicts ''user-123'' [john_claim] jane_world)))
       = [(4, 2, 1)]"
    by code_simp
  from found self jane conflicts edges show ?thesis by simp
qed

text \<open>
  Claim C1, at a failing input. The credential with the subject attribute \<open>age\<close> equal
  to zero is ingested twice for one user. Processing the first event detects nothing.
  In the second, the new claim and the stored claim of the first event both have the
  string \<open>0\<close>, yet the detector records a conflict between them and creates a
  CONTRADICTS edge: it takes the empty string for the new value, zero being falsy.
\<close>

theorem detect_conflicts_equal_zero_values:
  "detected (fst zero_first) = Some 0
   \<and> contradicts_edges (snd zero_first) = []
   \<and> map (\<lambda>c. (attribute c, claim_value c)) (result_claims (fst zero_second_decomposed))
       = [(''age'', PInt 0)]
   \<and> find_existing_claims (snd zero_second_decomposed) ''u1'' ''age'' =
        [\<lparr>rec_node_id = ''uuid-1'', rec_attribute = ''age'', rec_value = Some ''0''\<rparr>,
         \<lparr>rec_node_id = ''uuid-4'', rec_attribute = ''age'', rec_value = Some ''0''\<rparr>]
   \<and> map (\<lambda>c. (node_id (claim_a c), py_str (claim_value (claim_a c)),
                 node_id (claim_b c), py_str (claim_value (claim_b c))))
        (conflicts_of (fst (detect_conflicts ''u1''
           (result_claims (fst zero_second_decomposed)) (snd zero_second_decomposed))))
       = [(''uuid-4'', ''0'', ''uuid-1'', ''0'')]
   \<and> detected (fst zero_second) = Some 1
   \<and> length (contradicts_edges (snd zero_second)) = 1"
  by code_simp

section \<open>Properties of event processing\<close>

text \<open>
  The identifiers of the empty graph are fresh, and processing an event keeps them
  fresh: the conflict detector changes neither the nodes nor the relationships it
  reads, and the UUID generator only moves on.
\<close>

lemma fold_add_contradicts_uuid:
  "next_uuid (snd acc) \<le> next_uuid (snd (fold (add_contradicts t conf) ps acc))"
proof (induction ps arbitrary: acc)
  case Nil
  show ?case by simp
next
  case (Cons p ps)
  have "next_uuid (snd acc) \<le> next_uuid (snd (add_contradicts t conf p acc))"
    by (cases acc) (simp add: add_contradicts_def)
  with Cons [of "add_contradicts t conf p acc"] show ?case by simp
qed

lemma create_contradicts_edge_uuid:
  assumes "create_contradicts_edge a_id b_id conf w = (res, w')"
  shows "next_uuid w \<le> next_uuid w'"
proof -
  let ?ps = "List.product (filter (\<lambda>cl. cl_node_id cl = a_id) (claim_nodes_db w))
            (filter (\<lambda>cl. cl_node_id cl = b_id) (claim_nodes_db w))"
  let ?r = "fold (add_contradicts (DateTime (now w)) conf) ?ps ([], w\<lparr>now := now w + 1\<rparr>)"
  have "w' = snd ?r"
    using assms
    by (auto simp: create_contradicts_edge_def Let_def single_def ok_def raise_def
        split: prod.splits list.splits)
  with fold_add_contradicts_uuid [of "([], w\<lparr>now := now w + 1\<rparr>)" "DateTime (now w)" conf ?ps]
  show ?thesis by simp
qed

lemma record_conflict_uuid:
  assumes "record_conflict n e w = (res, w')"
  shows "next_uuid w \<le> next_uuid w'"
proof -
  obtain r1 w1 where c: "create_contradicts_edge (node_id n) (rec_node_id e) 1 w = (r1, w1)"
    by (cases "create_contradicts_edge (node_id n) (rec_node_id e) 1 w")
  from create_contradicts_edge_uuid [OF c] have "next_uuid w \<le> next_uuid w1" .
  moreover have "next_uuid w' = next_uuid w1"
    using assms c
    by (cases r1) (auto simp: record_conflict_def seq_def utcnow_def ok_def)
  ultimately show ?thesis by simp
qed

lemma check_existing_uuid:
  "check_existing n existing conflicts w = (res, w') \<Longrightarrow> next_uuid w \<le> next_uuid w'"
proof (induction existing arbitrary: conflicts w)
  case Nil
  then show ?case by simp
next
  case (Cons e existing)
  show ?case
  proof (cases "rec_node_id e \<noteq> node_id n \<and> existing_value_of e \<noteq> new_value_of n")
    case False
    with Cons.prems have "check_existing n existing conflicts w = (res, w')"
      by (auto split: if_splits)
    from Cons.IH [OF this] show ?thesis .
  next
    case True
    obtain r1 w1 where rc: "record_conflict n e w = (r1, w1)"
      by (cases "record_conflict n e w")
    from record_conflict_uuid [OF rc] have le: "next_uuid w \<le> next_uuid w1" .
    show ?thesis
    proof (cases r1)
      case (Inl err)
      with Cons.prems True rc have "w' = w1" by simp
      with le show ?thesis by simp
    next
      case (Inr c)
      with Cons.prems True rc
      have "check_existing n existing (conflicts @ [c]) w1 = (res, w')" by simp
      from Cons.IH [OF this] le show ?thesis by simp
    qed
  qed
qed

lemma detect_loop_uuid:
  "detect_loop user_id new_claims conflicts w = (res, w') \<Longrightarrow> next_uuid w \<le> next_uuid w'"
proof (induction new_claims arbitrary: conflicts w)
  case Nil
  then show ?case by simp
next
  case (Cons n new_claims)
  obtain r1 w1 where ce: "check_existing n (find_existing_claims w user_id (attribute n)) conflicts w = (r1, w1)"
    by (cases "check_existing n (find_existing_claims w user_id (attribute n)) conflicts w")
  from check_existing_uuid [OF ce] have le: "next_uuid w \<le> next_uuid w1" .
  show ?case
  proof (cases r1)
    case (Inl err)
    with Cons.prems ce have "w' = w1" by simp
    with le show ?thesis by simp
  next
    case (Inr cs1)
    with Cons.prems ce have "detect_loop user_id new_claims cs1 w1 = (res, w')" by simp
    from Cons.IH [OF this] le show ?thesis by simp
  qed
qed

lemma detect_conflicts_fresh:
  assumes "detect_conflicts user_id new_claims w = (res, w')" and "fresh_ids w"
  shows "fresh_ids w'"
proof -
  from assms(1) have run: "detect_loop user_id new_claims [] w = (res, w')"
    by (simp add: detect_conflicts_def)
  from detect_loop_inv [OF run] have "read_view w' = read_view w" by blast
  then have "user_nodes w' = user_nodes w" "credential_nodes w' = credential_nodes w"
    "claim_nodes_db w' = claim_nodes_db w"
    by (simp_all add: read_view_def)
  moreover from detect_loop_uuid [OF run] have "next_uuid w \<le> next_uuid w'" .
  ultimately show ?thesis using assms(2) by (auto simp: fresh_ids_def)
qed

lemma process_vc_fresh:
  assumes "fresh_ids w"
  shows "fresh_ids (snd (process_vc fromisoformat vc user_id event_id w))"
proof -
  from decompose_exact [OF assms, of fromisoformat vc user_id event_id]
  obtain r w1 where d: "decompose fromisoformat vc user_id event_id w = (Inr r, w1)"
    "fresh_ids w1" by blast
  obtain res w2 where c: "detect_conflicts user_id (claim_nodes r) w1 = (res, w2)"
    by (cases "detect_conflicts user_id (claim_nodes r) w1")
  from detect_conflicts_fresh [OF c d(2)] have "fresh_ids w2" .
  moreover have "snd (process_vc fromisoformat vc user_id event_id w) = w2"
    using d(1) c by (cases res) (simp_all add: process_vc_def seq_def ok_def)
  ultimately show ?thesis by simp
qed

end
